theory Spec2Isabelle
  imports Main
begin

section \<open>String primitives of the host language\<close>

text \<open>
  JavaScript strings are sequences of code units; they are modelled as \<open>string\<close>
  (lists of \<open>char\<close>), offsets and lengths as \<open>nat\<close>.  The built-in string methods
  the content script calls are written out here with the results ECMAScript
  prescribes for non-negative integer arguments.
\<close>

text \<open>\<open>String.prototype.indexOf(q, start)\<close>: the least position \<open>\<ge> start\<close> at which
  \<open>q\<close> occurs, \<open>None\<close> for the result \<open>-1\<close>.  The helper walks the remaining text and
  carries the absolute position.\<close>

fun indexOfFrom :: "string \<Rightarrow> string \<Rightarrow> nat \<Rightarrow> nat option" where
  "indexOfFrom [] q i = (if q = [] then Some i else None)"
| "indexOfFrom (c # cs) q i =
     (if take (length q) (c # cs) = q then Some i else indexOfFrom cs q (Suc i))"

definition indexOf :: "string \<Rightarrow> string \<Rightarrow> nat \<Rightarrow> nat option" where
  "indexOf s q start = indexOfFrom (drop start s) q (min start (length s))"

definition includesStr :: "string \<Rightarrow> string \<Rightarrow> bool" where
  "includesStr s q = (indexOf s q 0 \<noteq> None)"

text \<open>\<open>substring(a, b)\<close> clamps both arguments to the length and swaps them when
  \<open>a > b\<close>.\<close>

definition substring :: "string \<Rightarrow> nat \<Rightarrow> nat \<Rightarrow> string" where
  "substring s a b =
     (let a' = min a (length s); b' = min b (length s);
          lo = min a' b'; hi = max a' b'
      in take (hi - lo) (drop lo s))"

text \<open>\<open>s.slice(-n)\<close> and \<open>s.slice(0, n)\<close>.\<close>

definition sliceLast :: "nat \<Rightarrow> string \<Rightarrow> string" where
  "sliceLast n s = drop (length s - n) s"

definition sliceFirst :: "nat \<Rightarrow> string \<Rightarrow> string" where
  "sliceFirst n s = take n s"

text \<open>\<open>trim()\<close> removes white space at both ends.  Of ECMAScript's white space and
  line terminators, the code units below 256 are listed.\<close>

definition isWhiteSpace :: "char \<Rightarrow> bool" where
  "isWhiteSpace c =
     (c = CHR 0x09 \<or> c = CHR 0x0A \<or> c = CHR 0x0B \<or> c = CHR 0x0C \<or> c = CHR 0x0D
      \<or> c = CHR 0x20 \<or> c = CHR 0xA0)"

definition trim :: "string \<Rightarrow> string" where
  "trim s = rev (dropWhile isWhiteSpace (rev (dropWhile isWhiteSpace s)))"

text \<open>\<open>Array.prototype.findIndex\<close>, \<open>None\<close> for \<open>-1\<close>.\<close>

fun findIndex :: "('a \<Rightarrow> bool) \<Rightarrow> 'a list \<Rightarrow> nat option" where
  "findIndex P [] = None"
| "findIndex P (x # xs) =
     (if P x then Some 0 else map_option Suc (findIndex P xs))"


section \<open>Anchors and the page store (background script)\<close>

text \<open>
  The structural path written by \<open>getTextNodeXPath\<close> has the shape
  \<open>/body/tag[k]/tag/.../text()[n]\<close>.  It is kept in structured form: the element
  steps below \<open>body\<close> (tag name, and the 1-based index among same-tag siblings where
  the source writes one) and the index \<open>n\<close> of the text node among its parent's text
  children.
\<close>

datatype xpath = XPath "(string \<times> nat option) list" nat

text \<open>
  The fields \<open>getSelectionInfo\<close> computes and \<open>applyHighlight\<close> copies into the stored
  highlight are the common part of both objects; the stored highlight (the Anchor)
  extends it.  \<open>tags\<close> is absent on a fresh highlight and is read as the empty list.
\<close>

record locator =
  quote :: string
  xpath :: xpath
  startOffset :: nat
  endOffset :: nat
  prefix :: string
  suffix :: string

record anchor = locator +
  anchorId :: string
  color :: string
  noteText :: string
  createdAt :: string
  tags :: "string list"

record pageData =
  title :: string
  items :: "anchor list"

type_synonym highlights = "string \<rightharpoonup> pageData"

text \<open>
  \<open>new URL(url)\<close> is the platform's parser; the model keeps the \<open>origin\<close> and the
  \<open>pathname\<close> of the parsed URL, and \<open>None\<close> where the constructor throws.

  For the URLs of the plain form below the result is written out from the URL
  Standard: the scheme \<open>http\<close> or \<open>https\<close> in lower case, \<open>://\<close>, a host made of
  labels separated by dots, each label made of lower-case letters, digits and
  single hyphens between them (so none is empty or starts with \<open>xn--\<close>) and the
  last label of letters only (so the host is a domain, not an IPv4 address), a
  path that is empty or starts with \<open>/\<close>, made of letters, digits and \<open>/ . - _ ~\<close>
  with no segment \<open>.\<close> or \<open>..\<close>, and then nothing, or a query or fragment (any text
  from the first \<open>?\<close> or \<open>#\<close> on).  Such a URL has no credentials and no port,
  nothing in it is percent-encoded or case-folded; its origin is \<open>scheme://host\<close>
  and its pathname is its path, \<open>/\<close> when the path is empty.  For every other
  string the result of the platform's parser is a parameter of the model.
\<close>

type_synonym urlParser = "string \<Rightarrow> (string \<times> string) option"

definition isLower :: "char \<Rightarrow> bool" where
  "isLower c = (c \<in> set ''abcdefghijklmnopqrstuvwxyz'')"

definition isUpper :: "char \<Rightarrow> bool" where
  "isUpper c = (c \<in> set ''ABCDEFGHIJKLMNOPQRSTUVWXYZ'')"

definition isDigit :: "char \<Rightarrow> bool" where
  "isDigit c = (c \<in> set ''0123456789'')"

definition isHostChar :: "char \<Rightarrow> bool" where
  "isHostChar c = (isLower c \<or> isDigit c \<or> c = CHR ''.'' \<or> c = CHR ''-'')"

definition isPathChar :: "char \<Rightarrow> bool" where
  "isPathChar c = (isLower c \<or> isUpper c \<or> isDigit c \<or> c \<in> set ''/.-_~'')"

text \<open>The pieces of a string between the occurrences of a separator.\<close>

fun splitOn :: "char \<Rightarrow> string \<Rightarrow> string list" where
  "splitOn sep [] = [[]]"
| "splitOn sep (c # cs) =
     (if c = sep then [] # splitOn sep cs
      else (case splitOn sep cs of
              [] \<Rightarrow> [[c]]
            | seg # segs \<Rightarrow> (c # seg) # segs))"

fun noDoubleHyphen :: "string \<Rightarrow> bool" where
  "noDoubleHyphen (a # b # cs) =
     (\<not> (a = CHR ''-'' \<and> b = CHR ''-'') \<and> noDoubleHyphen (b # cs))"
| "noDoubleHyphen cs = True"

definition validLabel :: "string \<Rightarrow> bool" where
  "validLabel l =
     (l \<noteq> [] \<and> hd l \<noteq> CHR ''-'' \<and> last l \<noteq> CHR ''-'' \<and> noDoubleHyphen l)"

definition validHost :: "string \<Rightarrow> bool" where
  "validHost host =
     (let labels = splitOn (CHR ''.'') host
      in list_all validLabel labels \<and> list_all isLower (last labels))"

definition validPath :: "string \<Rightarrow> bool" where
  "validPath pth =
     (pth = [] \<or>
      (hd pth = CHR ''/'' \<and>
       list_all (\<lambda>seg. seg \<noteq> ''.'' \<and> seg \<noteq> ''..'') (splitOn (CHR ''/'') (tl pth))))"

definition plainHttpURL :: urlParser where
  "plainHttpURL u =
     (let scheme = (if take 8 u = ''https://'' then ''https'' else ''http'');
          rest = drop (length scheme + 3) u;
          host = takeWhile isHostChar rest;
          after = dropWhile isHostChar rest;
          pth = takeWhile isPathChar after;
          remainder = dropWhile isPathChar after
      in if (take 8 u = ''https://'' \<or> take 7 u = ''http://'')
            \<and> validHost host \<and> validPath pth
            \<and> (remainder = [] \<or> hd remainder = CHR ''?'' \<or> hd remainder = CHR ''#'')
         then Some (scheme @ ''://'' @ host, if pth = [] then ''/'' else pth)
         else None)"

definition newURL :: "urlParser \<Rightarrow> urlParser" where
  "newURL platformURL u =
     (case plainHttpURL u of
        Some parsed \<Rightarrow> Some parsed
      | None \<Rightarrow> platformURL u)"

definition normalizeUrl :: "urlParser \<Rightarrow> string \<Rightarrow> string" where
  "normalizeUrl platformURL url =
     (case newURL platformURL url of
        Some (origin, pathname) \<Rightarrow> origin @ pathname
      | None \<Rightarrow> url)"

text \<open>
  The store is the object kept under the storage key \<open>highlights\<close>: an ordinary
  object whose own properties are the page records, here the map \<open>highlights\<close>.  A
  property read \<open>obj[key]\<close> finds the own property, and otherwise the property of
  that name that every ordinary object inherits from \<open>Object.prototype\<close>, whose
  value is a function or (for \<open>__proto__\<close>) the prototype object: a truthy value
  that has neither \<open>items\<close> nor \<open>title\<close>.
\<close>

definition objectPrototypeKeys :: "string list" where
  "objectPrototypeKeys =
     [''constructor'', ''__proto__'', ''hasOwnProperty'', ''isPrototypeOf'',
      ''propertyIsEnumerable'', ''toLocaleString'', ''toString'', ''valueOf'',
      ''__defineGetter__'', ''__defineSetter__'', ''__lookupGetter__'',
      ''__lookupSetter__'']"

datatype 'a property = Own 'a | Inherited | Undefined

definition getProperty :: "(string \<rightharpoonup> 'a) \<Rightarrow> string \<Rightarrow> 'a property" where
  "getProperty obj k =
     (case obj k of
        Some v \<Rightarrow> Own v
      | None \<Rightarrow> if k \<in> set objectPrototypeKeys then Inherited else Undefined)"

text \<open>
  Exceptions of the host language that the modelled code can raise: a \<open>TypeError\<close>
  on reading a property of \<open>undefined\<close>, a \<open>SyntaxError\<close> on an invalid selector.
\<close>

datatype jsError = TypeError | SyntaxError

text \<open>
  \<open>getHighlightsForUrl\<close> returns \<open>highlights[normalizedUrl] || { title: '', items: [] }\<close>:
  the record, the inherited value where the key names one, the empty record
  otherwise.
\<close>

datatype pageValue = PageRecord pageData | PrototypeValue

definition getHighlightsForUrl :: "urlParser \<Rightarrow> highlights \<Rightarrow> string \<Rightarrow> pageValue" where
  "getHighlightsForUrl platformURL hl url =
     (case getProperty hl (normalizeUrl platformURL url) of
        Own pd \<Rightarrow> PageRecord pd
      | Inherited \<Rightarrow> PrototypeValue
      | Undefined \<Rightarrow> PageRecord \<lparr>title = [], items = []\<rparr>)"

text \<open>
  \<open>saveHighlightsForUrl\<close> deletes the own property or assigns it.  The assignment
  \<open>highlights['__proto__'] = ...\<close> on an object without an own property of that name
  runs the inherited setter, which replaces the prototype and creates no property,
  so that nothing is stored.
\<close>

definition saveHighlightsForUrl ::
  "urlParser \<Rightarrow> highlights \<Rightarrow> string \<Rightarrow> string \<Rightarrow> anchor list \<Rightarrow> highlights" where
  "saveHighlightsForUrl platformURL hl url ttl its =
     (let normalizedUrl = normalizeUrl platformURL url
      in if its = [] then hl(normalizedUrl := None)
         else if normalizedUrl = ''__proto__'' \<and> hl normalizedUrl = None then hl
         else hl(normalizedUrl \<mapsto> \<lparr>title = ttl, items = its\<rparr>))"

text \<open>
  The three operations on one highlight.  Each reads \<open>pageData.items\<close> of what
  \<open>getHighlightsForUrl\<close> returned; on an inherited value that is \<open>undefined\<close>, the
  method call on it throws, and the store is not written.  (In \<open>addHighlight\<close> the
  assignment of the title before it lands on the inherited object, outside the
  store.)
\<close>

definition addHighlight ::
  "urlParser \<Rightarrow> highlights \<Rightarrow> string \<Rightarrow> string \<Rightarrow> anchor \<Rightarrow> jsError + highlights" where
  "addHighlight platformURL hl url ttl highlightData =
     (case getHighlightsForUrl platformURL hl url of
        PrototypeValue \<Rightarrow> Inl TypeError
      | PageRecord pd \<Rightarrow>
          (let ttl' = (if ttl \<noteq> [] then ttl else title pd)
           in Inr (saveHighlightsForUrl platformURL hl url ttl' (items pd @ [highlightData]))))"

definition removeHighlight ::
  "urlParser \<Rightarrow> highlights \<Rightarrow> string \<Rightarrow> string \<Rightarrow> jsError + highlights" where
  "removeHighlight platformURL hl url highlightId =
     (case getHighlightsForUrl platformURL hl url of
        PrototypeValue \<Rightarrow> Inl TypeError
      | PageRecord pd \<Rightarrow>
          (let its = filter (\<lambda>item. anchorId item \<noteq> highlightId) (items pd)
           in Inr (saveHighlightsForUrl platformURL hl url (title pd) its)))"

text \<open>
  The \<open>updates\<close> object of an update message.  Every sender in the repository
  (toolbar, note dialog, popup) supplies \<open>color\<close>, or \<open>note\<close> and \<open>tags\<close>; the spread
  \<open>{...item, ...updates}\<close> overwrites exactly the supplied fields.
\<close>

record updates =
  updColor :: "string option"
  updNote :: "string option"
  updTags :: "string list option"

definition applyUpdates :: "anchor \<Rightarrow> updates \<Rightarrow> anchor" where
  "applyUpdates item u =
     item\<lparr>color := (case updColor u of Some c \<Rightarrow> c | None \<Rightarrow> color item),
          noteText := (case updNote u of Some n \<Rightarrow> n | None \<Rightarrow> noteText item),
          tags := (case updTags u of Some ts \<Rightarrow> ts | None \<Rightarrow> tags item)\<rparr>"

definition updateHighlight ::
  "urlParser \<Rightarrow> highlights \<Rightarrow> string \<Rightarrow> string \<Rightarrow> updates \<Rightarrow> jsError + highlights" where
  "updateHighlight platformURL hl url highlightId u =
     (case getHighlightsForUrl platformURL hl url of
        PrototypeValue \<Rightarrow> Inl TypeError
      | PageRecord pd \<Rightarrow>
          (case findIndex (\<lambda>item. anchorId item = highlightId) (items pd) of
             None \<Rightarrow> Inr hl
           | Some index \<Rightarrow>
               Inr (saveHighlightsForUrl platformURL hl url (title pd)
                      ((items pd)[index := applyUpdates (items pd ! index) u]))))"

text \<open>
  The \<open>IMPORT_HIGHLIGHTS\<close> handler.  \<open>importPage\<close> is the body of its loop over
  \<open>Object.entries(importedHighlights)\<close>; the entries are the list it goes through.
  The loop works on the object read from storage and the handler writes it back
  after the loop.  Where \<open>existingHighlights[url]\<close> is an inherited value the test
  \<open>!existingHighlights[url]\<close> fails, \<open>existingHighlights[url].items\<close> is \<open>undefined\<close>
  and \<open>.map\<close> on it throws: the handler ends there and writes nothing.
\<close>

fun importPage :: "highlights \<Rightarrow> string \<times> pageData \<Rightarrow> jsError + highlights" where
  "importPage existingHighlights (url, pd) =
     (case getProperty existingHighlights url of
        Undefined \<Rightarrow> Inr (existingHighlights(url \<mapsto> pd))
      | Inherited \<Rightarrow> Inl TypeError
      | Own ex \<Rightarrow>
          (let existingIds = map anchorId (items ex);
               newItems = filter (\<lambda>i. anchorId i \<notin> set existingIds) (items pd)
           in Inr (existingHighlights(url \<mapsto>
                \<lparr>title = (if title ex = [] \<and> title pd \<noteq> [] then title pd else title ex),
                 items = items ex @ newItems\<rparr>))))"

declare importPage.simps [simp del]

fun importEntries :: "highlights \<Rightarrow> (string \<times> pageData) list \<Rightarrow> jsError + highlights" where
  "importEntries existingHighlights [] = Inr existingHighlights"
| "importEntries existingHighlights (entry # rest) =
     (case importPage existingHighlights entry of
        Inl err \<Rightarrow> Inl err
      | Inr merged \<Rightarrow> importEntries merged rest)"

text \<open>
  The handler: \<open>Inr\<close> the object it writes to storage when the loop completes,
  \<open>Inl\<close> the exception when the loop throws, and then storage is not written.
\<close>

definition importHighlights :: "highlights \<Rightarrow> (string \<times> pageData) list \<Rightarrow> jsError + highlights" where
  "importHighlights existingHighlights importedHighlights =
     importEntries existingHighlights importedHighlights"


section \<open>The document tree\<close>

text \<open>
  The live document is a tree of text nodes and elements, rooted at the element the
  content script searches (\<open>document.body\<close>).  A node is identified by its position:
  the list of child indices from the root.  Mutation of the document is explicit
  state passing: an operation returns the new tree.
\<close>

datatype node = Text string | Element string "(string \<times> string) list" "node list"

type_synonym path = "nat list"

fun isText :: "node \<Rightarrow> bool" where
  "isText (Text d) = True"
| "isText (Element t a cs) = False"

fun tagName :: "node \<Rightarrow> string" where
  "tagName (Text d) = []"
| "tagName (Element t a cs) = t"

fun childNodes :: "node \<Rightarrow> node list" where
  "childNodes (Text d) = []"
| "childNodes (Element t a cs) = cs"

fun textContent :: "node \<Rightarrow> string" where
  "textContent (Text d) = d"
| "textContent (Element t a cs) = concat (map textContent cs)"

fun nodeAt :: "node \<Rightarrow> path \<Rightarrow> node option" where
  "nodeAt n [] = Some n"
| "nodeAt (Text d) (i # p) = None"
| "nodeAt (Element t a cs) (i # p) = (if i < length cs then nodeAt (cs ! i) p else None)"

definition parentNode :: "path \<Rightarrow> path option" where
  "parentNode p = (if p = [] then None else Some (butlast p))"

definition isTextAt :: "node \<Rightarrow> path \<Rightarrow> bool" where
  "isTextAt doc p = (case nodeAt doc p of Some n \<Rightarrow> isText n | None \<Rightarrow> False)"

text \<open>In-place mutation of the node at a position.\<close>

fun updateAt :: "node \<Rightarrow> path \<Rightarrow> (node \<Rightarrow> node) \<Rightarrow> node" where
  "updateAt n [] f = f n"
| "updateAt (Text d) (i # p) f = Text d"
| "updateAt (Element t a cs) (i # p) f =
     (if i < length cs then Element t a (cs[i := updateAt (cs ! i) p f])
      else Element t a cs)"

text \<open>
  \<open>document.createTreeWalker(root, NodeFilter.SHOW_TEXT)\<close>: the successive results
  of \<open>nextNode()\<close> are the text nodes below \<open>root\<close> in document order (depth first,
  children left to right), each with its content.
\<close>

fun textNodes :: "node \<Rightarrow> (path \<times> string) list"
  and textNodesList :: "nat \<Rightarrow> node list \<Rightarrow> (path \<times> string) list" where
  "textNodes (Text d) = [([], d)]"
| "textNodes (Element t a cs) = textNodesList 0 cs"
| "textNodesList i [] = []"
| "textNodesList i (c # cs) =
     map (\<lambda>(p, d). (i # p, d)) (textNodes c) @ textNodesList (Suc i) cs"

definition treeWalkerTexts :: "node \<Rightarrow> path \<Rightarrow> (path \<times> string) list" where
  "treeWalkerTexts doc root =
     (case nodeAt doc root of
        Some (Element t a cs) \<Rightarrow> map (\<lambda>(p, d). (root @ p, d)) (textNodesList 0 cs)
      | _ \<Rightarrow> [])"

definition HIGHLIGHT_CLASS :: string where
  "HIGHLIGHT_CLASS = ''hl-extension-highlight''"

definition HIGHLIGHT_DATA_ATTR :: string where
  "HIGHLIGHT_DATA_ATTR = ''data-hl-id''"

definition CONTEXT_SIZE :: nat where
  "CONTEXT_SIZE = 30"

text \<open>
  The first element in document order whose marker attribute has the value \<open>v\<close>:
  what \<open>document.querySelector\<close> returns for an attribute selector whose string
  denotes \<open>v\<close>.
\<close>

fun querySelector :: "string \<Rightarrow> node \<Rightarrow> path option"
  and querySelectorList :: "string \<Rightarrow> nat \<Rightarrow> node list \<Rightarrow> path option" where
  "querySelector hid (Text d) = None"
| "querySelector hid (Element t a cs) =
     (if map_of a HIGHLIGHT_DATA_ATTR = Some hid then Some []
      else querySelectorList hid 0 cs)"
| "querySelectorList hid i [] = None"
| "querySelectorList hid i (c # cs) =
     (case querySelector hid c of
        Some p \<Rightarrow> Some (i # p)
      | None \<Rightarrow> querySelectorList hid (Suc i) cs)"

text \<open>
  The content script looks a marker up with
  \<open>document.querySelector(`[${HIGHLIGHT_DATA_ATTR}="${id}"]`)\<close>: the id is pasted
  between the double quotes of the selector text as it is, and the platform reads
  the result as CSS.  \<open>cssStringValue\<close> is what the CSS tokenizer makes of the id in
  that place (CSS Syntax, consume a string token):
  a backslash followed by a character that is no hexadecimal digit and no newline
  stands for that character; a newline (line feed, form feed, carriage return)
  outside an escape ends the token as a bad string, and the selector is invalid;
  every other character stands for itself.  The remaining cases are not written
  out (\<open>CssOther\<close>): a double quote ends the string inside the id, so that the rest
  of the id is read as selector text; a backslash before a hexadecimal digit, a
  newline or the end of the id; the character NUL.  For them the result of the
  query is a parameter of the model, given the selector text and the document.
\<close>

datatype cssString = CssValue string | CssInvalid | CssOther

definition isCssNewline :: "char \<Rightarrow> bool" where
  "isCssNewline c = (c = CHR 0x0A \<or> c = CHR 0x0C \<or> c = CHR 0x0D)"

definition isHexDigit :: "char \<Rightarrow> bool" where
  "isHexDigit c = (c \<in> set ''0123456789abcdefABCDEF'')"

fun cssCons :: "char \<Rightarrow> cssString \<Rightarrow> cssString" where
  "cssCons c (CssValue v) = CssValue (c # v)"
| "cssCons c CssInvalid = CssInvalid"
| "cssCons c CssOther = CssOther"

fun cssStringValue :: "string \<Rightarrow> cssString" where
  "cssStringValue [] = CssValue []"
| "cssStringValue (c # cs) =
     (if c = CHR 0x22 \<or> c = CHR 0x00 then CssOther
      else if isCssNewline c then CssInvalid
      else if c = CHR 0x5C then
        (case cs of
           [] \<Rightarrow> CssOther
         | d # ds \<Rightarrow>
             if isHexDigit d \<or> isCssNewline d \<or> d = CHR 0x00 then CssOther
             else cssCons d (cssStringValue ds))
      else cssCons c (cssStringValue cs))"

type_synonym selectorEngine = "string \<Rightarrow> node \<Rightarrow> jsError + path option"

definition markerSelector :: "string \<Rightarrow> string" where
  "markerSelector hid = ''['' @ HIGHLIGHT_DATA_ATTR @ ''='' @ [CHR 0x22] @ hid @ [CHR 0x22] @ '']''"

definition querySelectorMarker :: "selectorEngine \<Rightarrow> string \<Rightarrow> node \<Rightarrow> jsError + path option" where
  "querySelectorMarker platformQuery hid doc =
     (case cssStringValue hid of
        CssValue v \<Rightarrow> Inr (querySelector v doc)
      | CssInvalid \<Rightarrow> Inl SyntaxError
      | CssOther \<Rightarrow> platformQuery (markerSelector hid) doc)"

text \<open>
  \<open>Node.normalize()\<close>: in the whole subtree, empty text nodes are removed and every
  run of adjacent text nodes becomes one text node holding the concatenation.
\<close>

fun normalize :: "node \<Rightarrow> node"
  and normalizeList :: "node list \<Rightarrow> node list" where
  "normalize (Text d) = Text d"
| "normalize (Element t a cs) = Element t a (normalizeList cs)"
| "normalizeList [] = []"
| "normalizeList (c # cs) =
     (case c of
        Text d \<Rightarrow>
          (if d = [] then normalizeList cs
           else (case normalizeList cs of
                   Text d' # rest \<Rightarrow> Text (d @ d') # rest
                 | rest \<Rightarrow> Text d # rest))
      | Element t a ks \<Rightarrow> normalize c # normalizeList cs)"


section \<open>Restoration resolver (content script)\<close>

record quoteMatch =
  matchNode :: path
  matchStart :: nat
  matchEnd :: nat

text \<open>
  \<open>findQuoteInElement\<close>.  \<open>findQuoteLoop\<close> is its \<open>while (node = walker.nextNode())\<close>
  loop over the text nodes the walker yields.
\<close>

fun findQuoteLoop :: "(path \<times> string) list \<Rightarrow> string \<Rightarrow> quoteMatch option" where
  "findQuoteLoop [] q = None"
| "findQuoteLoop ((node, txt) # rest) q =
     (case indexOf txt q 0 of
        Some index \<Rightarrow>
          Some \<lparr>matchNode = node, matchStart = index, matchEnd = index + length q\<rparr>
      | None \<Rightarrow> findQuoteLoop rest q)"

definition findQuoteInElement :: "node \<Rightarrow> path option \<Rightarrow> string \<Rightarrow> quoteMatch option" where
  "findQuoteInElement doc element q =
     (case element of
        None \<Rightarrow> None
      | Some el \<Rightarrow> if q = [] then None else findQuoteLoop (treeWalkerTexts doc el) q)"

text \<open>
  \<open>findQuoteWithContext\<close>.  \<open>contextScore\<close> is the score computed in the body of the
  inner loop for the occurrence at \<open>index\<close>; \<open>considerOccurrence\<close> is the rest of the
  body, the update of \<open>bestMatch\<close> and \<open>bestScore\<close>.
\<close>

definition contextScore :: "string \<Rightarrow> string \<Rightarrow> string \<Rightarrow> string \<Rightarrow> nat \<Rightarrow> nat" where
  "contextScore txt q pre suf index =
     (let score = 1;
          score =
            (if pre \<noteq> [] \<and> length pre \<le> index then
               (let actualPrefix = substring txt (index - length pre) index
                in if actualPrefix = pre then score + 2
                   else if includesStr actualPrefix (sliceLast 10 pre) then score + 1
                   else score)
             else score);
          score =
            (if suf \<noteq> [] \<and> index + length q + length suf \<le> length txt then
               (let actualSuffix =
                      substring txt (index + length q) (index + length q + length suf)
                in if actualSuffix = suf then score + 2
                   else if includesStr actualSuffix (sliceFirst 10 suf) then score + 1
                   else score)
             else score)
      in score)"

type_synonym best = "quoteMatch option \<times> nat"

definition considerOccurrence ::
  "path \<Rightarrow> string \<Rightarrow> string \<Rightarrow> string \<Rightarrow> string \<Rightarrow> nat \<Rightarrow> best \<Rightarrow> best" where
  "considerOccurrence node txt q pre suf index b =
     (let score = contextScore txt q pre suf index
      in if snd b < score
         then (Some \<lparr>matchNode = node, matchStart = index, matchEnd = index + length q\<rparr>,
               score)
         else b)"

text \<open>
  The inner loop \<open>while ((index = text.indexOf(quote, searchStart)) !== -1)\<close>.  With
  an empty quote \<open>indexOf\<close> never fails and the loop would not end, so the loop is a
  partial function: \<open>None\<close> stands for not returning.  The source only enters it
  after the guard \<open>if (!quote) return null\<close>.
\<close>

partial_function (option) scanOccurrences ::
  "path \<Rightarrow> string \<Rightarrow> string \<Rightarrow> string \<Rightarrow> string \<Rightarrow> nat \<Rightarrow> best \<Rightarrow> best option" where
  "scanOccurrences node txt q pre suf searchStart b =
     (case indexOf txt q searchStart of
        None \<Rightarrow> Some b
      | Some index \<Rightarrow>
          scanOccurrences node txt q pre suf (index + 1)
            (considerOccurrence node txt q pre suf index b))"

declare scanOccurrences.simps [code]

text \<open>
  The outer loop over the text nodes of the walker, and the function itself.  For
  a non-empty quote the scan returns (lemma \<open>scanNodes_returns\<close>), so the last case
  of \<open>findQuoteWithContext\<close> is never taken.
\<close>

fun scanNodes ::
  "(path \<times> string) list \<Rightarrow> string \<Rightarrow> string \<Rightarrow> string \<Rightarrow> best \<Rightarrow> best option" where
  "scanNodes [] q pre suf b = Some b"
| "scanNodes ((node, txt) # rest) q pre suf b =
     (case scanOccurrences node txt q pre suf 0 b of
        None \<Rightarrow> None
      | Some b' \<Rightarrow> scanNodes rest q pre suf b')"

definition findQuoteWithContext ::
  "node \<Rightarrow> string \<Rightarrow> string \<Rightarrow> string \<Rightarrow> quoteMatch option" where
  "findQuoteWithContext doc q pre suf =
     (if q = [] then None
      else (case scanNodes (treeWalkerTexts doc []) q pre suf (None, 0) of
              Some (bestMatch, bestScore) \<Rightarrow> bestMatch
            | None \<Rightarrow> None))"

text \<open>
  \<open>document.evaluate\<close> is the platform's XPath engine and a parameter of the model:
  for the current document and a stored path it yields the position of the first
  node selected, or \<open>None\<close> for \<open>null\<close>.  A position outside the tree is no node.
\<close>

type_synonym evaluator = "node \<Rightarrow> xpath \<Rightarrow> path option"

definition getTextNodeByXPath :: "evaluator \<Rightarrow> node \<Rightarrow> xpath \<Rightarrow> (path \<times> node) option" where
  "getTextNodeByXPath ev doc xp =
     (case ev doc xp of
        None \<Rightarrow> None
      | Some p \<Rightarrow> (case nodeAt doc p of None \<Rightarrow> None | Some n \<Rightarrow> Some (p, n)))"

text \<open>
  \<open>tryRestoreHighlight\<close> tries three strategies in order and passes the node and
  offsets of the first that succeeds to \<open>applyHighlightToTextNode\<close>.  \<open>resolveRange\<close>
  is that choice (the specification's \<open>resolve\<close>); the tier is recorded with the
  range so that statements can tell the strategies apart.
\<close>

datatype tier = Tier1 | Tier2 | Tier3

definition resolveRange :: "evaluator \<Rightarrow> node \<Rightarrow> anchor \<Rightarrow> (tier \<times> quoteMatch) option" where
  "resolveRange ev doc item =
     (let textNode = getTextNodeByXPath ev doc (xpath item)
      in case (case textNode of
                 Some (p, Text txt) \<Rightarrow>
                   (let expectedText = substring txt (startOffset item) (endOffset item)
                    in if expectedText = quote item
                       then Some \<lparr>matchNode = p, matchStart = startOffset item,
                                  matchEnd = endOffset item\<rparr>
                       else None)
               | _ \<Rightarrow> None) of
           Some m \<Rightarrow> Some (Tier1, m)
         | None \<Rightarrow>
             (case (case textNode of
                      Some (p, n) \<Rightarrow>
                        findQuoteInElement doc (if isText n then parentNode p else Some p)
                          (quote item)
                    | None \<Rightarrow> None) of
                Some m \<Rightarrow> Some (Tier2, m)
              | None \<Rightarrow>
                  (case findQuoteWithContext doc (quote item) (prefix item) (suffix item) of
                     Some m \<Rightarrow> Some (Tier3, m)
                   | None \<Rightarrow> None)))"


section \<open>Mark renderer (content script)\<close>

text \<open>
  \<open>createHighlightSpan\<close>: the marker element with its class and id attribute.  The
  inline style and the click listener are presentation and not part of the tree.
\<close>

definition createHighlightSpan :: "string \<Rightarrow> string \<Rightarrow> node" where
  "createHighlightSpan hid col =
     Element ''span'' [(''class'', HIGHLIGHT_CLASS), (HIGHLIGHT_DATA_ATTR, hid)] []"

fun appendChildren :: "node \<Rightarrow> node list \<Rightarrow> node" where
  "appendChildren (Text d) ks = Text d"
| "appendChildren (Element t a cs) ks = Element t a (cs @ ks)"

text \<open>
  \<open>Range.surroundContents(newParent)\<close> for a range inside one text node, child \<open>i\<close> of
  its parent, from offset \<open>s\<close> to \<open>e\<close> with \<open>s \<le> e\<close>: the selected text moves into a new
  text node inside \<open>newParent\<close> (none when the range is collapsed), the text node
  keeps the part before \<open>s\<close>, and the split leaves a new text node with the part
  after \<open>e\<close>.
\<close>

definition wrapTextChild :: "nat \<Rightarrow> nat \<Rightarrow> nat \<Rightarrow> node \<Rightarrow> node \<Rightarrow> node" where
  "wrapTextChild i s e newParent parent =
     (case parent of
        Element t a cs \<Rightarrow>
          (if i < length cs then
             (case cs ! i of
                Text d \<Rightarrow>
                  Element t a
                    (take i cs @
                     [Text (take s d),
                      appendChildren newParent
                        (if s < e then [Text (take (e - s) (drop s d))] else []),
                      Text (drop e d)] @
                     drop (Suc i) cs)
              | Element t' a' ks \<Rightarrow> parent)
           else parent)
      | Text d \<Rightarrow> parent)"

text \<open>
  The same for a range from offset \<open>s\<close> of text child \<open>i\<close> to offset \<open>e\<close> of a later text
  child \<open>j\<close> of the same parent: the marker takes the tail of the first text, the
  children in between, and the head of the last text.
\<close>

definition wrapTextSiblings :: "nat \<Rightarrow> nat \<Rightarrow> nat \<Rightarrow> nat \<Rightarrow> node \<Rightarrow> node \<Rightarrow> node" where
  "wrapTextSiblings i s j e newParent parent =
     (case parent of
        Element t a cs \<Rightarrow>
          (if i < j \<and> j < length cs then
             (case (cs ! i, cs ! j) of
                (Text d1, Text d2) \<Rightarrow>
                  Element t a
                    (take i cs @
                     [Text (take s d1),
                      appendChildren newParent
                        (Text (drop s d1) # take (j - Suc i) (drop (Suc i) cs) @
                         [Text (take e d2)]),
                      Text (drop e d2)] @
                     drop (Suc j) cs)
              | _ \<Rightarrow> parent)
           else parent)
      | Text d \<Rightarrow> parent)"

text \<open>
  \<open>applyHighlightToTextNode\<close>.  \<open>setStart\<close> and \<open>setEnd\<close> throw when an offset exceeds
  the length of the text, and \<open>setEnd\<close> before the start collapses the range to the
  end; a throw is caught and the result is \<open>false\<close> with the document unchanged.
  Every caller passes the position of a text node below the root (lemma
  \<open>resolveRange_text_node\<close>); the remaining cases return \<open>false\<close>.
\<close>

definition applyHighlightToTextNode ::
  "node \<Rightarrow> path \<Rightarrow> nat \<Rightarrow> nat \<Rightarrow> anchor \<Rightarrow> node \<times> bool" where
  "applyHighlightToTextNode doc textNode startOff endOff item =
     (case nodeAt doc textNode of
        Some (Text d) \<Rightarrow>
          (if textNode = [] \<or> length d < startOff \<or> length d < endOff then (doc, False)
           else (updateAt doc (butlast textNode)
                   (wrapTextChild (last textNode) (min startOff endOff) endOff
                      (createHighlightSpan (anchorId item) (color item))),
                 True))
      | _ \<Rightarrow> (doc, False))"

definition tryRestoreHighlight :: "evaluator \<Rightarrow> node \<Rightarrow> anchor \<Rightarrow> node \<times> bool" where
  "tryRestoreHighlight ev doc item =
     (case resolveRange ev doc item of
        Some (t, m) \<Rightarrow>
          applyHighlightToTextNode doc (matchNode m) (matchStart m) (matchEnd m) item
      | None \<Rightarrow> (doc, False))"

text \<open>
  \<open>restoreHighlights\<close>: the session is the document together with \<open>highlightCache\<close>;
  \<open>restoreItem\<close> is the callback of \<open>items.forEach\<close>.  The callback writes the cache
  and then asks for the marker; where \<open>querySelector\<close> throws, the exception leaves
  the callback and \<open>forEach\<close>, so that the remaining items are not visited, and the
  session stays as it is at that point.
\<close>

type_synonym session = "node \<times> (string \<rightharpoonup> anchor)"

definition restoreItem ::
  "selectorEngine \<Rightarrow> evaluator \<Rightarrow> session \<Rightarrow> anchor \<Rightarrow> session \<times> (jsError + unit)" where
  "restoreItem platformQuery ev st item =
     (let doc = fst st;
          highlightCache = (snd st)(anchorId item \<mapsto> item)
      in case querySelectorMarker platformQuery (anchorId item) doc of
           Inl err \<Rightarrow> ((doc, highlightCache), Inl err)
         | Inr (Some found) \<Rightarrow> ((doc, highlightCache), Inr ())
         | Inr None \<Rightarrow> ((fst (tryRestoreHighlight ev doc item), highlightCache), Inr ()))"

fun restoreHighlights ::
  "selectorEngine \<Rightarrow> evaluator \<Rightarrow> session \<Rightarrow> anchor list \<Rightarrow> session \<times> (jsError + unit)" where
  "restoreHighlights platformQuery ev st [] = (st, Inr ())"
| "restoreHighlights platformQuery ev st (item # its) =
     (case restoreItem platformQuery ev st item of
        (st', Inl err) \<Rightarrow> (st', Inl err)
      | (st', Inr done) \<Rightarrow> restoreHighlights platformQuery ev st' its)"

text \<open>
  \<open>removeHighlightSpan\<close>.  \<open>moveChildrenOut\<close> is the loop
  \<open>while (span.firstChild) parent.insertBefore(span.firstChild, span)\<close>: it takes the
  nodes already placed before the marker and the marker's remaining children.  The
  function has no handler: where \<open>querySelector\<close> throws, it throws, and the document
  is as it was.
\<close>

fun moveChildrenOut :: "node list \<Rightarrow> node list \<Rightarrow> node list" where
  "moveChildrenOut placed [] = placed"
| "moveChildrenOut placed (k # ks) = moveChildrenOut (placed @ [k]) ks"

definition unwrapChild :: "nat \<Rightarrow> node \<Rightarrow> node" where
  "unwrapChild i parent =
     (case parent of
        Element t a cs \<Rightarrow>
          (if i < length cs
           then Element t a
                  (moveChildrenOut (take i cs) (childNodes (cs ! i)) @ drop (Suc i) cs)
           else parent)
      | Text d \<Rightarrow> parent)"

definition removeHighlightSpan ::
  "selectorEngine \<Rightarrow> node \<Rightarrow> string \<Rightarrow> node \<times> (jsError + bool)" where
  "removeHighlightSpan platformQuery doc hid =
     (case querySelectorMarker platformQuery hid doc of
        Inl err \<Rightarrow> (doc, Inl err)
      | Inr None \<Rightarrow> (doc, Inr False)
      | Inr (Some span) \<Rightarrow>
          (case parentNode span of
             None \<Rightarrow> (doc, Inr False)
           | Some parent \<Rightarrow>
               (updateAt doc parent (\<lambda>n. normalize (unwrapChild (last span) n)), Inr True)))"


section \<open>Locator codec (content script)\<close>

text \<open>
  \<open>getElementXPath\<close> walks from the element up to \<open>document.body\<close> and writes, for
  each element on the way, its tag and, when the parent has more than one element
  child of that tag, its 1-based index among them.  \<open>xpathSteps\<close> produces the same
  steps walking down the position of the element; a position that is no element
  gives \<open>None\<close>.
\<close>

fun xpathSteps :: "node \<Rightarrow> path \<Rightarrow> (string \<times> nat option) list option" where
  "xpathSteps n [] = (if isText n then None else Some [])"
| "xpathSteps (Text d) (i # p) = None"
| "xpathSteps (Element t a cs) (i # p) =
     (if i < length cs then
        (let current = cs ! i;
             sameTag = (\<lambda>child. \<not> isText child \<and> tagName child = tagName current);
             siblings = filter sameTag cs;
             step = (tagName current,
                     if 1 < length siblings
                     then Some (length (filter sameTag (take i cs)) + 1)
                     else None)
         in map_option (\<lambda>rest. step # rest) (xpathSteps current p))
      else None)"

definition getElementXPath :: "node \<Rightarrow> path option \<Rightarrow> (string \<times> nat option) list option" where
  "getElementXPath doc element =
     (case element of None \<Rightarrow> None | Some el \<Rightarrow> xpathSteps doc el)"

definition getTextNodeXPath :: "node \<Rightarrow> path \<Rightarrow> xpath option" where
  "getTextNodeXPath doc textNode =
     (if \<not> isTextAt doc textNode then None
      else (case parentNode textNode of
              None \<Rightarrow> None
            | Some parent \<Rightarrow>
                (case getElementXPath doc (Some parent) of
                   None \<Rightarrow> None
                 | Some parentXPath \<Rightarrow>
                     (case nodeAt doc parent of
                        Some (Element t a cs) \<Rightarrow>
                          Some (XPath parentXPath
                                  (length (filter isText (take (last textNode) cs)) + 1))
                      | _ \<Rightarrow> None))))"

text \<open>
  The selection: its first range and the string \<open>selection.toString()\<close> returns.
  \<open>None\<close> stands for no selection or \<open>rangeCount === 0\<close>.
\<close>

record domRange =
  startContainer :: path
  rangeStartOffset :: nat
  endContainer :: path
  rangeEndOffset :: nat

record selection =
  selRange :: domRange
  selString :: string

datatype selectionError = MultiNode | NotTextNode | XPathFailed

record selectionInfo = locator +
  selText :: string
  infoRange :: domRange

text \<open>
  \<open>getSelectionInfo\<close>: \<open>None\<close> is \<open>null\<close>, \<open>Inl (e, text)\<close> is the object
  \<open>{ error: e, text }\<close>, \<open>Inr\<close> the selection info.
\<close>

definition getSelectionInfo ::
  "node \<Rightarrow> selection option \<Rightarrow> (selectionError \<times> string + selectionInfo) option" where
  "getSelectionInfo doc sel =
     (case sel of
        None \<Rightarrow> None
      | Some s \<Rightarrow>
          (let r = selRange s;
               txt = trim (selString s)
           in if txt = [] then None
              else if startContainer r \<noteq> endContainer r \<and>
                      (\<not> isTextAt doc (startContainer r) \<or>
                       \<not> isTextAt doc (endContainer r) \<or>
                       parentNode (startContainer r) \<noteq> parentNode (endContainer r))
              then Some (Inl (MultiNode, txt))
              else if \<not> isTextAt doc (startContainer r)
              then Some (Inl (NotTextNode, txt))
              else (case getTextNodeXPath doc (startContainer r) of
                      None \<Rightarrow> Some (Inl (XPathFailed, txt))
                    | Some xp \<Rightarrow>
                        (let fullText = (case nodeAt doc (startContainer r) of
                                           Some n \<Rightarrow> textContent n | None \<Rightarrow> []);
                             so = rangeStartOffset r;
                             eo = rangeEndOffset r;
                             pre = substring fullText (so - CONTEXT_SIZE) so;
                             suf = substring fullText eo
                                     (min (length fullText) (eo + CONTEXT_SIZE))
                         in Some (Inr \<lparr>quote = txt, xpath = xp, startOffset = so,
                                       endOffset = eo, prefix = pre, suffix = suf,
                                       selText = txt, infoRange = r\<rparr>)))))"

text \<open>
  \<open>range.surroundContents(span)\<close> for the ranges \<open>getSelectionInfo\<close> lets through:
  inside one text node, or from a text node to a later text node of the same
  parent.  \<open>None\<close> stands for a thrown exception; ranges of another shape are not
  described and give \<open>None\<close>.
\<close>

definition surroundContents :: "node \<Rightarrow> domRange \<Rightarrow> node \<Rightarrow> node option" where
  "surroundContents doc r newParent =
     (let sc = startContainer r; ec = endContainer r;
          s = rangeStartOffset r; e = rangeEndOffset r
      in if sc = [] \<or> ec = [] then None
         else if sc = ec then
           (case nodeAt doc sc of
              Some (Text d) \<Rightarrow>
                (if s \<le> e \<and> e \<le> length d
                 then Some (updateAt doc (butlast sc) (wrapTextChild (last sc) s e newParent))
                 else None)
            | _ \<Rightarrow> None)
         else if butlast sc = butlast ec \<and> last sc < last ec then
           (case (nodeAt doc sc, nodeAt doc ec) of
              (Some (Text d1), Some (Text d2)) \<Rightarrow>
                (if s \<le> length d1 \<and> e \<le> length d2
                 then Some (updateAt doc (butlast sc)
                              (wrapTextSiblings (last sc) s (last ec) e newParent))
                 else None)
            | _ \<Rightarrow> None)
         else None)"

text \<open>
  \<open>applyHighlight\<close>.  The fresh id of \<open>generateId()\<close> and the time stamp are
  parameters.  The result is the new document and the highlight data, \<open>None\<close> for
  \<open>null\<close>.
\<close>

definition applyHighlight ::
  "node \<Rightarrow> selectionInfo \<Rightarrow> string \<Rightarrow> string \<Rightarrow> string \<Rightarrow> node \<times> anchor option" where
  "applyHighlight doc info col newId now =
     (case surroundContents doc (infoRange info) (createHighlightSpan newId col) of
        None \<Rightarrow> (doc, None)
      | Some doc' \<Rightarrow>
          (doc',
           Some \<lparr>quote = (if quote info \<noteq> [] then quote info else selText info),
                 xpath = xpath info,
                 startOffset = startOffset info,
                 endOffset = endOffset info,
                 prefix = prefix info,
                 suffix = suffix info,
                 anchorId = newId,
                 color = col,
                 noteText = [],
                 createdAt = now,
                 tags = []\<rparr>))"

text \<open>
  The \<open>DO_HIGHLIGHT\<close> handler (the specification's \<open>encode\<close>): selection info, then
  the highlight; the result is the new document and the response
  (\<open>Inl\<close> the error of \<open>{ success: false, error }\<close>, \<open>Inr\<close> the highlight data).
\<close>

datatype encodeError = NoSelection | SelectionError selectionError | ApplyFailed

definition doHighlight ::
  "node \<Rightarrow> selection option \<Rightarrow> string \<Rightarrow> string \<Rightarrow> string \<Rightarrow> node \<times> (encodeError + anchor)" where
  "doHighlight doc sel col newId now =
     (case getSelectionInfo doc sel of
        None \<Rightarrow> (doc, Inl NoSelection)
      | Some (Inl (err, txt)) \<Rightarrow> (doc, Inl (SelectionError err))
      | Some (Inr info) \<Rightarrow>
          (case applyHighlight doc info col newId now of
             (doc', None) \<Rightarrow> (doc', Inl ApplyFailed)
           | (doc', Some highlightData) \<Rightarrow> (doc', Inr highlightData)))"


text \<open>
  \<open>generateId\<close>: \<open>'hl-' + Date.now() + '-' + Math.random().toString(36).substr(2, 9)\<close>.
  The clock value, written in decimal digits, and the digits of the random number
  in base 36 are the arguments.
\<close>

definition generateId :: "string \<Rightarrow> string \<Rightarrow> string" where
  "generateId now random = ''hl-'' @ now @ ''-'' @ random"


section \<open>Notions used in the statements\<close>

text \<open>
  The quote \<open>q\<close> occurs in \<open>txt\<close> at position \<open>i\<close>; all positions of a text in
  increasing order; all occurrences in a list of text nodes, in the order of the
  nodes and, inside a node, by increasing position (document order).
\<close>

definition occursAt :: "string \<Rightarrow> string \<Rightarrow> nat \<Rightarrow> bool" where
  "occursAt txt q i = (i \<le> length txt \<and> take (length q) (drop i txt) = q)"

definition occurrences :: "string \<Rightarrow> string \<Rightarrow> nat list" where
  "occurrences txt q = filter (occursAt txt q) [0..<Suc (length txt)]"

definition allOccurrences :: "(path \<times> string) list \<Rightarrow> string \<Rightarrow> (path \<times> string \<times> nat) list" where
  "allOccurrences tns q =
     concat (map (\<lambda>(node, txt). map (\<lambda>i. (node, txt, i)) (occurrences txt q)) tns)"

definition matchOf :: "string \<Rightarrow> path \<times> string \<times> nat \<Rightarrow> quoteMatch" where
  "matchOf q occ =
     (case occ of (node, txt, i) \<Rightarrow>
        \<lparr>matchNode = node, matchStart = i, matchEnd = i + length q\<rparr>)"

definition scoreOf :: "string \<Rightarrow> string \<Rightarrow> string \<Rightarrow> path \<times> string \<times> nat \<Rightarrow> nat" where
  "scoreOf q pre suf occ = (case occ of (node, txt, i) \<Rightarrow> contextScore txt q pre suf i)"

text \<open>
  Position \<open>k\<close> of a list holds the first element of maximal score: no element scores
  more, and every earlier element scores less.
\<close>

definition firstMaxAt :: "('a \<Rightarrow> nat) \<Rightarrow> 'a list \<Rightarrow> nat \<Rightarrow> bool" where
  "firstMaxAt f xs k =
     (k < length xs \<and> (\<forall>x \<in> set xs. f x \<le> f (xs ! k)) \<and> (\<forall>x \<in> set (take k xs). f x < f (xs ! k)))"

text \<open>
  The score as the specification words it, for comparison with \<open>contextScore\<close>:
  base 1; plus 2 if the text immediately preceding the occurrence equals the prefix,
  else plus 1 if that text contains the last 10 characters of the prefix; the same
  for the suffix and the following text (with its first 10 characters).  The text
  immediately preceding is read as the (up to) \<open>length pre\<close> characters before the
  occurrence in its text node, what \<open>text.substring(index - prefix.length, index)\<close>
  yields at every index.
\<close>

definition statedScore :: "string \<Rightarrow> string \<Rightarrow> string \<Rightarrow> path \<times> string \<times> nat \<Rightarrow> nat" where
  "statedScore q pre suf occ =
     (case occ of (node, txt, i) \<Rightarrow>
        (let preceding = substring txt (i - length pre) i;
             following = substring txt (i + length q) (i + length q + length suf)
         in 1 + (if preceding = pre then 2
                 else if includesStr preceding (sliceLast 10 pre) then 1 else 0)
              + (if following = suf then 2
                 else if includesStr following (sliceFirst 10 suf) then 1 else 0)))"

text \<open>
  One step of the scan over the occurrences: the update of the best match and score
  that the loop body of \<open>findQuoteWithContext\<close> makes for one occurrence.
\<close>

definition considerOcc ::
  "string \<Rightarrow> string \<Rightarrow> string \<Rightarrow> best \<Rightarrow> path \<times> string \<times> nat \<Rightarrow> best" where
  "considerOcc q pre suf b occ =
     (if snd b < scoreOf q pre suf occ then (Some (matchOf q occ), scoreOf q pre suf occ)
      else b)"

text \<open>The number of elements of a tree that carry the marker attribute with a given id.\<close>

fun countMarkers :: "string \<Rightarrow> node \<Rightarrow> nat" where
  "countMarkers hid (Text d) = 0"
| "countMarkers hid (Element t a cs) =
     (if map_of a HIGHLIGHT_DATA_ATTR = Some hid then 1 else 0)
     + sum_list (map (countMarkers hid) cs)"

text \<open>
  An id without any character that is special between the double quotes of a CSS
  string: no double quote, no backslash, no newline, no NUL.
\<close>

definition cssPlain :: "string \<Rightarrow> bool" where
  "cssPlain s =
     list_all (\<lambda>c. c \<noteq> CHR 0x22 \<and> c \<noteq> CHR 0x5C \<and> c \<noteq> CHR 0x00 \<and> \<not> isCssNewline c) s"

text \<open>The anchors stored under a key, none when the key has no record.\<close>

definition storedItems :: "highlights \<Rightarrow> string \<Rightarrow> anchor list" where
  "storedItems hl k = (case hl k of None \<Rightarrow> [] | Some pd \<Rightarrow> items pd)"

text \<open>Example data for the instances below.\<close>

definition exampleAnchor :: "string \<Rightarrow> string \<Rightarrow> anchor" where
  "exampleAnchor hid n =
     \<lparr>quote = ''quick brown fox'', xpath = XPath [(''p'', None)] 1,
      startOffset = 25, endOffset = 40, prefix = ''The '', suffix = '' jumps.'',
      anchorId = hid, color = ''#FFEB3B'', noteText = n,
      createdAt = ''2026-01-01T00:00:00.000Z'', tags = []\<rparr>"

text \<open>
  What the platform's parser yields, by the URL Standard, on the strings of the
  examples that are not plain \<open>http\<close> URLs: a URL of another scheme has the opaque
  origin, serialised \<open>null\<close>, and as pathname its opaque path (\<open>view-source:\<close>) or the
  path after its host (\<open>nullhttps:\<close>); \<open>not a url\<close> has no scheme and is rejected.  No
  other string is used.
\<close>

definition exampleURL :: urlParser where
  "exampleURL u =
     (if u = ''view-source:https://example.com/page''
        then Some (''null'', ''https://example.com/page'')
      else if u = ''nullhttps://example.com/page'' then Some (''null'', ''/page'')
      else None)"

text \<open>
  Example documents.  \<open>exampleDoc\<close> is the scenario of the specification;
  in \<open>shiftedDoc\<close> text was inserted before the highlighted passage; in
  \<open>truncatedDoc\<close> the text node of the passage lost its first characters and the
  quote also occurs in an earlier paragraph.  \<open>exampleEval\<close> resolves the stored path
  \<open>/body/p/text()[1]\<close> to the first text node of the first paragraph.
\<close>

definition exampleDoc :: node where
  "exampleDoc = Element ''body'' []
     [Element ''p'' [] [Text ''The quick brown fox. The quick brown fox jumps.'']]"

definition shiftedDoc :: node where
  "shiftedDoc = Element ''body'' []
     [Element ''p'' [] [Text ''Note: The quick brown fox. The quick brown fox jumps.'']]"

definition truncatedDoc :: node where
  "truncatedDoc = Element ''body'' []
     [Element ''p'' [] [Text ''A fox ran.''],
      Element ''p'' [] [Text ''ick brown fox sleeps'']]"

definition exampleEval :: evaluator where
  "exampleEval doc xp = (if xp = XPath [(''p'', None)] 1 then Some [0, 0] else None)"

text \<open>
  \<open>inlineDoc\<close> has a paragraph whose text is interrupted by inline markup, and a
  second paragraph.  \<open>selectionOf\<close> is the selection from offset \<open>s\<close> of the node at
  \<open>sc\<close> to offset \<open>e\<close> of the node at \<open>ec\<close> for which the platform returns the string
  \<open>str\<close>.
\<close>

definition inlineDoc :: node where
  "inlineDoc = Element ''body'' []
     [Element ''p'' [] [Text ''foo '', Element ''b'' [] [Text ''bar''], Text '' baz''],
      Element ''p'' [] [Text ''second'']]"

definition selectionOf :: "path \<Rightarrow> nat \<Rightarrow> path \<Rightarrow> nat \<Rightarrow> string \<Rightarrow> selection" where
  "selectionOf sc s ec e str =
     \<lparr>selRange = \<lparr>startContainer = sc, rangeStartOffset = s,
                      endContainer = ec, rangeEndOffset = e\<rparr>,
      selString = str\<rparr>"


section \<open>The page store: deletion, import, URL normalisation\<close>

lemma filter_other_ids:
  assumes "distinct (map anchorId its)" "a \<in> set its"
  shows "\<exists>xs ys. its = xs @ a # ys \<and>
           filter (\<lambda>item. anchorId item \<noteq> anchorId a) its = xs @ ys"
proof -
  from assms(2) obtain xs ys where split: "its = xs @ a # ys"
    by (auto simp: in_set_conv_decomp)
  with assms(1) have "\<forall>x \<in> set xs. anchorId x \<noteq> anchorId a"
    "\<forall>x \<in> set ys. anchorId x \<noteq> anchorId a"
    by (auto simp: image_iff)
  then have "filter (\<lambda>item. anchorId item \<noteq> anchorId a) xs = xs"
    "filter (\<lambda>item. anchorId item \<noteq> anchorId a) ys = ys"
    by (auto simp: filter_id_conv)
  then have "filter (\<lambda>item. anchorId item \<noteq> anchorId a) (xs @ a # ys) = xs @ ys"
    by simp
  with split show ?thesis by blast
qed

lemma getProperty_Own: "obj k = Some v \<Longrightarrow> getProperty obj k = Own v"
  by (simp add: getProperty_def)

lemma example_key:
  "normalizeUrl exampleURL ''https://example.com/page?x=1#top'' = ''https://example.com/page''"
  by code_simp

text \<open>
  Claim C7.  Let a page record be stored under the normalised URL, with pairwise
  distinct anchor ids, and let \<open>a\<close> be one of its anchors.  Then \<open>removeHighlight\<close>
  returns, and in the store it writes: if \<open>a\<close> is the only anchor, the record is
  deleted.  Otherwise the record stays with its title, and its anchors are those
  before \<open>a\<close> followed by those after \<open>a\<close>, unchanged and in their order.  Records
  under other keys are untouched.
\<close>

theorem removeHighlight_page_record:
  assumes stored: "hl (normalizeUrl platformURL url) = Some pd"
    and ids: "distinct (map anchorId (items pd))"
    and mem: "a \<in> set (items pd)"
  shows "\<exists>hl'. removeHighlight platformURL hl url (anchorId a) = Inr hl'
       \<and> (items pd = [a] \<longrightarrow> hl' (normalizeUrl platformURL url) = None)
       \<and> (items pd \<noteq> [a] \<longrightarrow>
           (\<exists>xs ys. items pd = xs @ a # ys \<and> xs @ ys \<noteq> [] \<and>
              hl' (normalizeUrl platformURL url) = Some \<lparr>title = title pd, items = xs @ ys\<rparr>))
       \<and> (\<forall>k. k \<noteq> normalizeUrl platformURL url \<longrightarrow> hl' k = hl k)"
proof -
  let ?key = "normalizeUrl platformURL url"
  from filter_other_ids[OF ids mem] obtain xs ys where
    split: "items pd = xs @ a # ys" and
    flt: "filter (\<lambda>item. anchorId item \<noteq> anchorId a) (items pd) = xs @ ys"
    by blast
  have only: "items pd = [a] \<longleftrightarrow> xs @ ys = []"
    using split by (cases xs) auto
  define hl' where "hl' = saveHighlightsForUrl platformURL hl url (title pd) (xs @ ys)"
  have ret: "removeHighlight platformURL hl url (anchorId a) = Inr hl'"
    using stored flt
    by (simp add: removeHighlight_def getHighlightsForUrl_def getProperty_Own hl'_def)
  have rest: "\<And>k. k \<noteq> ?key \<Longrightarrow> hl' k = hl k"
    by (simp add: hl'_def saveHighlightsForUrl_def Let_def)
  have at: "hl' ?key
      = (if xs @ ys = [] then None else Some \<lparr>title = title pd, items = xs @ ys\<rparr>)"
    using stored by (simp add: hl'_def saveHighlightsForUrl_def Let_def)
  show ?thesis
    using split only rest at ret by auto
qed

text \<open>
  Instances: a record with the single anchor \<open>hl-1\<close> disappears; from a record with
  \<open>hl-1\<close> and \<open>hl-2\<close>, deleting \<open>hl-1\<close> leaves \<open>hl-2\<close> with its note.
\<close>

theorem removeHighlight_page_record_witness:
  "(\<exists>hl'. removeHighlight exampleURL
       [''https://example.com/page'' \<mapsto>
          \<lparr>title = ''Page'', items = [exampleAnchor ''hl-1'' []]\<rparr>]
       ''https://example.com/page?x=1#top'' ''hl-1'' = Inr hl'
     \<and> hl' ''https://example.com/page'' = None)
   \<and> (\<exists>hl' xs ys. [exampleAnchor ''hl-1'' [], exampleAnchor ''hl-2'' ''keep'']
                 = xs @ exampleAnchor ''hl-1'' [] # ys \<and> xs @ ys \<noteq> [] \<and>
        removeHighlight exampleURL
          [''https://example.com/page'' \<mapsto>
             \<lparr>title = ''Page'',
              items = [exampleAnchor ''hl-1'' [], exampleAnchor ''hl-2'' ''keep'']\<rparr>]
          ''https://example.com/page?x=1#top'' ''hl-1'' = Inr hl'
        \<and> hl' ''https://example.com/page'' = Some \<lparr>title = ''Page'', items = xs @ ys\<rparr>)
   \<and> (\<exists>hl'. removeHighlight exampleURL
          [''https://example.com/page'' \<mapsto>
             \<lparr>title = ''Page'',
              items = [exampleAnchor ''hl-1'' [], exampleAnchor ''hl-2'' ''keep'']\<rparr>]
          ''https://example.com/page?x=1#top'' ''hl-1'' = Inr hl'
        \<and> hl' ''https://example.com/page''
            = Some \<lparr>title = ''Page'', items = [exampleAnchor ''hl-2'' ''keep'']\<rparr>)"
proof -
  let ?url = "''https://example.com/page?x=1#top''"
  let ?a = "exampleAnchor ''hl-1'' []"
  let ?pd1 = "\<lparr>title = ''Page'', items = [?a]\<rparr>"
  let ?pd2 = "\<lparr>title = ''Page'', items = [?a, exampleAnchor ''hl-2'' ''keep'']\<rparr>"
  note key = example_key
  have id1: "anchorId ?a = ''hl-1''"
    by (simp add: exampleAnchor_def)
  have one: "\<exists>hl'. removeHighlight exampleURL [''https://example.com/page'' \<mapsto> ?pd1] ?url
               (anchorId ?a) = Inr hl' \<and> hl' (normalizeUrl exampleURL ?url) = None"
    using removeHighlight_page_record
            [of "[''https://example.com/page'' \<mapsto> ?pd1]" exampleURL ?url ?pd1 ?a]
    by (auto simp: key)
  have two: "\<exists>hl' xs ys. items ?pd2 = xs @ ?a # ys \<and> xs @ ys \<noteq> [] \<and>
        removeHighlight exampleURL [''https://example.com/page'' \<mapsto> ?pd2] ?url
          (anchorId ?a) = Inr hl'
        \<and> hl' (normalizeUrl exampleURL ?url) = Some \<lparr>title = title ?pd2, items = xs @ ys\<rparr>"
    using removeHighlight_page_record
            [of "[''https://example.com/page'' \<mapsto> ?pd2]" exampleURL ?url ?pd2 ?a]
    by (auto simp: key exampleAnchor_def)
  have three: "\<exists>hl'. removeHighlight exampleURL [''https://example.com/page'' \<mapsto> ?pd2] ?url
          ''hl-1'' = Inr hl'
        \<and> hl' ''https://example.com/page''
            = Some \<lparr>title = ''Page'', items = [exampleAnchor ''hl-2'' ''keep'']\<rparr>"
    by (simp add: removeHighlight_def saveHighlightsForUrl_def getHighlightsForUrl_def
        getProperty_def key exampleAnchor_def)
  show ?thesis
    using one two three by (simp add: key id1)
qed

lemma importPage_Inherited:
  "(importPage ex (url, pd) = Inl TypeError) = (getProperty ex url = Inherited)"
  by (simp add: importPage.simps Let_def split: property.splits)






text \<open>
  An entry whose key the store only inherits stops the handler: a snapshot with the
  key \<open>constructor\<close> is not merged into an empty store.
\<close>

lemma import_inherited_key:
  "importHighlights Map.empty [(''constructor'', \<lparr>title = ''T'', items = []\<rparr>)] = Inl TypeError"
  by (simp add: importHighlights_def importPage.simps getProperty_def objectPrototypeKeys_def)

subsection \<open>URL normalisation\<close>







text \<open>
  The normal form of a plain URL starts with its scheme, so it is none of the
  property names that the store object inherits: the operations of the store do
  not throw on the key of such a page.
\<close>

lemma plain_key_not_inherited:
  assumes "plainHttpURL u \<noteq> None"
  shows "normalizeUrl platformURL u \<notin> set objectPrototypeKeys"
proof -
  from assms obtain origin pathname where p: "plainHttpURL u = Some (origin, pathname)"
    by auto
  then have "take 4 origin = ''http''"
    by (auto simp: plainHttpURL_def Let_def split: if_splits)
  then have "take 4 (origin @ pathname) = ''http''"
    by (cases "length origin < 4") auto
  moreover have "\<forall>k \<in> set objectPrototypeKeys. take 4 k \<noteq> ''http''"
    by (simp add: objectPrototypeKeys_def)
  ultimately have "origin @ pathname \<notin> set objectPrototypeKeys" by blast
  with p show ?thesis by (simp add: normalizeUrl_def newURL_def)
qed





section \<open>The resolver: string search\<close>

lemma indexOfFrom_Some:
  "indexOfFrom s q i = Some k \<Longrightarrow>
     i \<le> k \<and> k - i \<le> length s \<and> take (length q) (drop (k - i) s) = q
     \<and> (\<forall>j < k - i. take (length q) (drop j s) \<noteq> q)"
proof (induction s q i rule: indexOfFrom.induct)
  case (1 q i)
  then show ?case by (auto split: if_splits)
next
  case (2 c cs q i)
  show ?case
  proof (cases "take (length q) (c # cs) = q")
    case True
    with 2 show ?thesis by simp
  next
    case False
    with 2 have rec: "indexOfFrom cs q (Suc i) = Some k" by simp
    from "2.IH"[OF False rec] have ih:
      "Suc i \<le> k" "k - Suc i \<le> length cs" "take (length q) (drop (k - Suc i) cs) = q"
      "\<forall>j < k - Suc i. take (length q) (drop j cs) \<noteq> q"
      by auto
    from ih(1) have ki: "k - i = Suc (k - Suc i)" by simp
    have "\<forall>j < k - i. take (length q) (drop j (c # cs)) \<noteq> q"
    proof (intro allI impI)
      fix j assume "j < k - i"
      then show "take (length q) (drop j (c # cs)) \<noteq> q"
        using False ih(4) ki by (cases j) auto
    qed
    with ih ki show ?thesis by simp
  qed
qed

lemma indexOfFrom_None:
  "indexOfFrom s q i = None \<Longrightarrow> \<forall>j \<le> length s. take (length q) (drop j s) \<noteq> q"
proof (induction s q i rule: indexOfFrom.induct)
  case (1 q i)
  then show ?case by (auto split: if_splits)
next
  case (2 c cs q i)
  then have hd: "take (length q) (c # cs) \<noteq> q" and rec: "indexOfFrom cs q (Suc i) = None"
    by (auto split: if_splits)
  from "2.IH"[OF hd rec] have ih: "\<forall>j \<le> length cs. take (length q) (drop j cs) \<noteq> q" .
  show ?case
  proof (intro allI impI)
    fix j assume "j \<le> length (c # cs)"
    then show "take (length q) (drop j (c # cs)) \<noteq> q"
      using hd ih by (cases j) auto
  qed
qed

lemma occursAt_beyond: "q \<noteq> [] \<Longrightarrow> length txt \<le> i \<Longrightarrow> \<not> occursAt txt q i"
  by (auto simp: occursAt_def)

lemma indexOf_Some:
  assumes "indexOf txt q start = Some k" "q \<noteq> []"
  shows "start \<le> k \<and> k < length txt \<and> occursAt txt q k
         \<and> (\<forall>j. start \<le> j \<and> j < k \<longrightarrow> \<not> occursAt txt q j)"
proof (cases "start \<le> length txt")
  case True
  then have m: "min start (length txt) = start" by simp
  from assms(1) have f: "indexOfFrom (drop start txt) q start = Some k"
    by (simp add: indexOf_def m)
  from indexOfFrom_Some[OF f] have a: "start \<le> k" "k - start \<le> length (drop start txt)"
    "take (length q) (drop (k - start) (drop start txt)) = q"
    "\<forall>j < k - start. take (length q) (drop j (drop start txt)) \<noteq> q"
    by auto
  from a(1,3) have occ: "take (length q) (drop k txt) = q" by simp
  from a(1,2) True have kle: "k \<le> length txt" by simp
  with occ assms(2) have klt: "k < length txt"
    by (cases "k = length txt") auto
  have none: "\<forall>j. start \<le> j \<and> j < k \<longrightarrow> \<not> occursAt txt q j"
  proof (intro allI impI)
    fix j assume j: "start \<le> j \<and> j < k"
    from j have "j - start < k - start" by arith
    with a(4) have "take (length q) (drop (j - start) (drop start txt)) \<noteq> q" by blast
    with j show "\<not> occursAt txt q j" by (simp add: occursAt_def)
  qed
  from a(1) klt occ kle none show ?thesis by (simp add: occursAt_def)
next
  case False
  then have "drop start txt = []" by simp
  with assms show ?thesis by (simp add: indexOf_def)
qed

lemma indexOf_None:
  assumes "indexOf txt q start = None"
  shows "\<forall>j. start \<le> j \<longrightarrow> \<not> occursAt txt q j"
proof (intro allI impI)
  fix j assume j: "start \<le> j"
  show "\<not> occursAt txt q j"
  proof
    assume o: "occursAt txt q j"
    then have jl: "j \<le> length txt" and t: "take (length q) (drop j txt) = q"
      by (auto simp: occursAt_def)
    from assms have f: "indexOfFrom (drop start txt) q (min start (length txt)) = None"
      by (simp add: indexOf_def)
    from j jl have "j - start \<le> length (drop start txt)" by simp
    with indexOfFrom_None[OF f] have "take (length q) (drop (j - start) (drop start txt)) \<noteq> q"
      by blast
    with j t show False by simp
  qed
qed

subsection \<open>The inner loop of the document scan\<close>

lemma filter_upt_first:
  assumes "start \<le> k" "k < n" "P k" "\<forall>j. start \<le> j \<and> j < k \<longrightarrow> \<not> P j"
  shows "filter P [start..<n] = k # filter P [Suc k..<n]"
proof -
  from assms(1,2) have "[start..<n] = [start..<k] @ k # [Suc k..<n]"
    by (metis le_Suc_ex less_imp_le_nat upt_add_eq_append upt_conv_Cons)
  moreover from assms(4) have "filter P [start..<k] = []"
    by (auto simp: filter_empty_conv)
  ultimately show ?thesis using assms(3) by simp
qed

lemma filter_upt_none:
  assumes "\<forall>j. start \<le> j \<longrightarrow> \<not> P j"
  shows "filter P [start..<n] = []"
  using assms by (auto simp: filter_empty_conv)

lemma scanOccurrences_fold:
  assumes "q \<noteq> []"
  shows "scanOccurrences node txt q pre suf start b =
     Some (foldl (\<lambda>b i. considerOccurrence node txt q pre suf i b) b
             (filter (occursAt txt q) [start..<Suc (length txt)]))"
proof (induction "Suc (length txt) - start" arbitrary: start b rule: less_induct)
  case less
  show ?case
  proof (cases "indexOf txt q start")
    case None
    from filter_upt_none[OF indexOf_None[OF None]]
    have "filter (occursAt txt q) [start..<Suc (length txt)] = []" .
    with None show ?thesis
      by (subst scanOccurrences.simps) simp
  next
    case (Some k)
    from indexOf_Some[OF Some assms] have k: "start \<le> k" "k < length txt" "occursAt txt q k"
      "\<forall>j. start \<le> j \<and> j < k \<longrightarrow> \<not> occursAt txt q j" by auto
    from k(2) have kn: "k < Suc (length txt)" by simp
    have flt: "filter (occursAt txt q) [start..<Suc (length txt)]
        = k # filter (occursAt txt q) [Suc k..<Suc (length txt)]"
      by (rule filter_upt_first[OF k(1) kn k(3) k(4)])
    from k(1,2) have dec: "Suc (length txt) - (k + 1) < Suc (length txt) - start" by simp
    note ih = less[OF dec, of "considerOccurrence node txt q pre suf k b"]
    show ?thesis
      using Some ih flt by (subst scanOccurrences.simps) simp
  qed
qed

lemma scanOccurrences_occurrences:
  "q \<noteq> [] \<Longrightarrow> scanOccurrences node txt q pre suf 0 b =
     Some (foldl (\<lambda>b i. considerOccurrence node txt q pre suf i b) b (occurrences txt q))"
  by (simp add: scanOccurrences_fold occurrences_def)

subsection \<open>The outer loop\<close>

lemma considerOccurrence_considerOcc:
  "considerOccurrence node txt q pre suf i b = considerOcc q pre suf b (node, txt, i)"
  by (simp add: considerOccurrence_def considerOcc_def scoreOf_def matchOf_def Let_def)

lemma allOccurrences_Cons:
  "allOccurrences ((node, txt) # rest) q =
     map (\<lambda>i. (node, txt, i)) (occurrences txt q) @ allOccurrences rest q"
  by (simp add: allOccurrences_def)

lemma scanNodes_fold:
  "q \<noteq> [] \<Longrightarrow>
   scanNodes tns q pre suf b = Some (foldl (considerOcc q pre suf) b (allOccurrences tns q))"
proof (induction tns arbitrary: b)
  case Nil
  then show ?case by (simp add: allOccurrences_def)
next
  case (Cons nt rest)
  obtain nd tx where nt: "nt = (nd, tx)" by (cases nt)
  show ?case
    using Cons.prems
    by (simp add: nt scanOccurrences_occurrences Cons.IH allOccurrences_Cons
        foldl_map considerOccurrence_considerOcc)
qed

subsection \<open>The first maximum\<close>

lemma fold_first_max:
  assumes pos: "\<forall>x \<in> set xs. 0 < f x" and ne: "xs \<noteq> []"
  shows "\<exists>k. firstMaxAt f xs k \<and>
     foldl (\<lambda>b x. if snd b < f x then (Some (g x), f x) else b) (None, 0) xs
       = (Some (g (xs ! k)), f (xs ! k))"
  using assms
proof (induction xs rule: rev_induct)
  case Nil
  then show ?case by simp
next
  case (snoc x xs)
  let ?step = "\<lambda>b x. if snd b < f x then (Some (g x), f x) else b"
  show ?case
  proof (cases "xs = []")
    case True
    with snoc.prems have "firstMaxAt f (xs @ [x]) 0 \<and>
       foldl ?step (None, 0) (xs @ [x]) = (Some (g ((xs @ [x]) ! 0)), f ((xs @ [x]) ! 0))"
      by (simp add: firstMaxAt_def)
    then show ?thesis by blast
  next
    case False
    from snoc.prems have "\<forall>x \<in> set xs. 0 < f x" by simp
    from snoc.IH[OF this False] obtain k where
      fm: "firstMaxAt f xs k" and
      fo: "foldl ?step (None, 0) xs = (Some (g (xs ! k)), f (xs ! k))"
      by blast
    from fm have kl: "k < length xs" and mx: "\<forall>y \<in> set xs. f y \<le> f (xs ! k)"
      and fst: "\<forall>y \<in> set (take k xs). f y < f (xs ! k)"
      by (auto simp: firstMaxAt_def)
    show ?thesis
    proof (cases "f (xs ! k) < f x")
      case True
      have "firstMaxAt f (xs @ [x]) (length xs)"
        using True mx by (auto simp: firstMaxAt_def)
      moreover have "foldl ?step (None, 0) (xs @ [x])
          = (Some (g ((xs @ [x]) ! length xs)), f ((xs @ [x]) ! length xs))"
        using True fo by simp
      ultimately show ?thesis by blast
    next
      case False
      have "firstMaxAt f (xs @ [x]) k"
        using False mx fst kl by (auto simp: firstMaxAt_def nth_append)
      moreover have "foldl ?step (None, 0) (xs @ [x])
          = (Some (g ((xs @ [x]) ! k)), f ((xs @ [x]) ! k))"
        using False fo kl by (simp add: nth_append)
      ultimately show ?thesis by blast
    qed
  qed
qed

lemma contextScore_pos: "0 < contextScore txt q pre suf i"
  by (simp add: contextScore_def Let_def)

lemma in_occurrences: "i \<in> set (occurrences txt q) \<longleftrightarrow> occursAt txt q i"
  by (auto simp: occurrences_def occursAt_def simp del: upt_Suc)

lemma allOccurrences_iff:
  "(node, txt, i) \<in> set (allOccurrences tns q) \<longleftrightarrow> (node, txt) \<in> set tns \<and> occursAt txt q i"
proof (induction tns)
  case Nil
  then show ?case by (simp add: allOccurrences_def)
next
  case (Cons nt rest)
  obtain nd tx where nt: "nt = (nd, tx)" by (cases nt)
  show ?case
    using Cons.IH by (auto simp: nt allOccurrences_Cons in_occurrences)
qed


text \<open>
  Where the text node holds the whole context around the occurrence (both context
  strings non-empty), the score of the source is the score as the specification
  words it.
\<close>

lemma statedScore_contextScore:
  assumes "pre \<noteq> []" "suf \<noteq> []" "length pre \<le> i" "i + length q + length suf \<le> length txt"
  shows "statedScore q pre suf (node, txt, i) = contextScore txt q pre suf i"
  using assms by (simp add: statedScore_def contextScore_def Let_def)

text \<open>
  Claim C1, as amended.  If the quote is empty or occurs in no text node of the
  document, \<open>findQuoteWithContext\<close> reports not found.  Otherwise it returns, of all
  occurrences of the quote in the text nodes in document order, the first one of
  maximal score, where the score is \<open>contextScore\<close>: base 1; for a non-empty prefix,
  and only when at least as many characters as the prefix has precede the
  occurrence in its text node, plus 2 if these characters equal the prefix, else
  plus 1 if they contain the last 10 characters of the prefix; and likewise for a
  non-empty suffix when at least as many characters follow the occurrence in its
  text node, with the first 10 characters of the suffix.
\<close>

theorem findQuoteWithContext_first_max:
  "(q = [] \<or> allOccurrences (treeWalkerTexts doc []) q = []
      \<longrightarrow> findQuoteWithContext doc q pre suf = None)
   \<and> (q \<noteq> [] \<and> allOccurrences (treeWalkerTexts doc []) q \<noteq> [] \<longrightarrow>
        (\<exists>k. firstMaxAt (scoreOf q pre suf) (allOccurrences (treeWalkerTexts doc []) q) k
           \<and> findQuoteWithContext doc q pre suf
               = Some (matchOf q (allOccurrences (treeWalkerTexts doc []) q ! k))))"
proof -
  let ?occs = "allOccurrences (treeWalkerTexts doc []) q"
  have fold: "q \<noteq> [] \<Longrightarrow> findQuoteWithContext doc q pre suf
      = fst (foldl (considerOcc q pre suf) (None, 0) ?occs)"
    by (simp add: findQuoteWithContext_def scanNodes_fold split: prod.splits)
  have pos: "\<forall>x \<in> set ?occs. 0 < scoreOf q pre suf x"
    by (auto simp: scoreOf_def contextScore_pos)
  have step: "considerOcc q pre suf
      = (\<lambda>b x. if snd b < scoreOf q pre suf x
                then (Some (matchOf q x), scoreOf q pre suf x) else b)"
    by (intro ext) (simp add: considerOcc_def)
  have some: "q \<noteq> [] \<Longrightarrow> ?occs \<noteq> [] \<Longrightarrow>
      \<exists>k. firstMaxAt (scoreOf q pre suf) ?occs k
           \<and> findQuoteWithContext doc q pre suf = Some (matchOf q (?occs ! k))"
    using fold_first_max[OF pos, of "matchOf q"] fold by (auto simp: step)
  have none: "q = [] \<or> ?occs = [] \<Longrightarrow> findQuoteWithContext doc q pre suf = None"
    using fold by (cases "q = []") (auto simp: findQuoteWithContext_def)
  show ?thesis using some none by auto
qed

text \<open>
  Instance (the scenario of the specification): the quote occurs at 4 and at 25;
  only the second occurrence is followed by the suffix, and it is returned.
\<close>

theorem findQuoteWithContext_first_max_witness:
  "''quick brown fox'' \<noteq> []
   \<and> allOccurrences (treeWalkerTexts exampleDoc []) ''quick brown fox''
       = [([0, 0], ''The quick brown fox. The quick brown fox jumps.'', 4),
          ([0, 0], ''The quick brown fox. The quick brown fox jumps.'', 25)]
   \<and> (\<exists>k. firstMaxAt (scoreOf ''quick brown fox'' ''The '' '' jumps.'')
               (allOccurrences (treeWalkerTexts exampleDoc []) ''quick brown fox'') k
          \<and> findQuoteWithContext exampleDoc ''quick brown fox'' ''The '' '' jumps.''
              = Some (matchOf ''quick brown fox''
                  (allOccurrences (treeWalkerTexts exampleDoc []) ''quick brown fox'' ! k)))
   \<and> findQuoteWithContext exampleDoc ''quick brown fox'' ''The '' '' jumps.''
       = Some \<lparr>matchNode = [0, 0], matchStart = 25, matchEnd = 40\<rparr>
   \<and> findQuoteWithContext exampleDoc ''lazy dog'' ''The '' '' jumps.'' = None"
proof -
  let ?q = "''quick brown fox''"
  have occs: "allOccurrences (treeWalkerTexts exampleDoc []) ?q
       = [([0, 0], ''The quick brown fox. The quick brown fox jumps.'', 4),
          ([0, 0], ''The quick brown fox. The quick brown fox jumps.'', 25)]"
    by code_simp
  then have ne: "?q \<noteq> [] \<and> allOccurrences (treeWalkerTexts exampleDoc []) ?q \<noteq> []"
    by simp
  have best: "\<exists>k. firstMaxAt (scoreOf ?q ''The '' '' jumps.'')
               (allOccurrences (treeWalkerTexts exampleDoc []) ?q) k
          \<and> findQuoteWithContext exampleDoc ?q ''The '' '' jumps.''
              = Some (matchOf ?q (allOccurrences (treeWalkerTexts exampleDoc []) ?q ! k))"
    by (rule findQuoteWithContext_first_max
          [of ?q exampleDoc "''The ''" "'' jumps.''", THEN conjunct2, rule_format, OF ne])
  have val: "findQuoteWithContext exampleDoc ?q ''The '' '' jumps.''
       = Some \<lparr>matchNode = [0, 0], matchStart = 25, matchEnd = 40\<rparr>"
    by code_simp
  have absent: "allOccurrences (treeWalkerTexts exampleDoc []) ''lazy dog'' = []"
    by code_simp
  have none: "findQuoteWithContext exampleDoc ''lazy dog'' ''The '' '' jumps.'' = None"
    using findQuoteWithContext_first_max
            [of "''lazy dog''" exampleDoc "''The ''" "'' jumps.''"] absent
    by simp
  show ?thesis
    using occs best val none by simp
qed

text \<open>
  Claim C1 as stated fails.  The stored prefix is \<open>The quick brown \<close>.  In
  \<open>truncatedDoc\<close> the second occurrence of \<open>fox\<close> is preceded, in its text node, by
  \<open>ick brown \<close>: the last 10 characters of the prefix, so that the score as stated
  is 2 for it and 1 for the first occurrence.  The source gives no prefix bonus
  when fewer characters than the prefix has precede the occurrence; both
  occurrences score 1 and the first is returned.
\<close>

theorem findQuoteWithContext_not_stated_maximum:
  "allOccurrences (treeWalkerTexts truncatedDoc []) ''fox''
     = [([0, 0], ''A fox ran.'', 2), ([1, 0], ''ick brown fox sleeps'', 10)]
   \<and> statedScore ''fox'' ''The quick brown '' '' jumps'' ([0, 0], ''A fox ran.'', 2) = 1
   \<and> statedScore ''fox'' ''The quick brown '' '' jumps''
        ([1, 0], ''ick brown fox sleeps'', 10) = 2
   \<and> scoreOf ''fox'' ''The quick brown '' '' jumps'' ([0, 0], ''A fox ran.'', 2) = 1
   \<and> scoreOf ''fox'' ''The quick brown '' '' jumps''
        ([1, 0], ''ick brown fox sleeps'', 10) = 1
   \<and> findQuoteWithContext truncatedDoc ''fox'' ''The quick brown '' '' jumps''
     = Some \<lparr>matchNode = [0, 0], matchStart = 2, matchEnd = 5\<rparr>
   \<and> findQuoteWithContext truncatedDoc ''fox'' ''The quick brown '' '' jumps''
     \<noteq> Some (matchOf ''fox'' ([1, 0], ''ick brown fox sleeps'', 10))"
  by code_simp

section \<open>The resolver: tiers 1 and 2\<close>





subsection \<open>The first occurrence in a subtree\<close>

lemma occurrences_indexOf_None:
  "indexOf txt q 0 = None \<Longrightarrow> occurrences txt q = []"
  unfolding occurrences_def by (rule filter_upt_none[OF indexOf_None])

lemma occurrences_indexOf_Some:
  assumes "indexOf txt q 0 = Some k" "q \<noteq> []"
  shows "occurrences txt q = k # filter (occursAt txt q) [Suc k..<Suc (length txt)]"
proof -
  from indexOf_Some[OF assms] have k: "0 \<le> k" "k < Suc (length txt)" "occursAt txt q k"
    "\<forall>j. 0 \<le> j \<and> j < k \<longrightarrow> \<not> occursAt txt q j" by auto
  show ?thesis unfolding occurrences_def
    by (rule filter_upt_first[OF k])
qed

lemma findQuoteLoop_first:
  "q \<noteq> [] \<Longrightarrow> findQuoteLoop tns q =
     (case allOccurrences tns q of [] \<Rightarrow> None | occ # rest \<Rightarrow> Some (matchOf q occ))"
proof (induction tns)
  case Nil
  then show ?case by (simp add: allOccurrences_def)
next
  case (Cons nt rest)
  obtain nd tx where nt: "nt = (nd, tx)" by (cases nt)
  show ?case
  proof (cases "indexOf tx q 0")
    case None
    with Cons show ?thesis
      by (simp add: nt allOccurrences_Cons occurrences_indexOf_None)
  next
    case (Some k)
    with Cons.prems show ?thesis
      by (simp add: nt allOccurrences_Cons occurrences_indexOf_Some matchOf_def)
  qed
qed


text \<open>
  The head of the list of occurrences is the first occurrence in document order:
  no earlier text node holds the quote, and in its own text node no smaller
  position does.
\<close>

lemma occurrences_head:
  assumes "occurrences d q = i # rest"
  shows "occursAt d q i \<and> (\<forall>i' < i. \<not> occursAt d q i')"
proof -
  from assms have fl: "filter (occursAt d q) [0..<Suc (length d)] = i # rest"
    by (simp add: occurrences_def)
  from filter_eq_Cons_iff[THEN iffD1, OF fl] obtain us vs where
    u: "[0..<Suc (length d)] = us @ i # vs" "\<forall>u \<in> set us. \<not> occursAt d q u" "occursAt d q i"
    by blast
  have "\<forall>i' < i. i' \<in> set us"
  proof (intro allI impI)
    fix i' assume lt: "i' < i"
    have "i \<in> set [0..<Suc (length d)]" using u(1) by (simp del: upt_Suc)
    then have "i' \<in> set [0..<Suc (length d)]" using lt by (simp del: upt_Suc)
    then have "i' \<in> set us \<or> i' = i \<or> i' \<in> set vs" unfolding u(1) by auto
    moreover have "sorted_wrt (<) (us @ i # vs)"
      using u(1) sorted_wrt_upt by metis
    then have "\<forall>v \<in> set vs. i < v" by (simp add: sorted_wrt_append)
    ultimately show "i' \<in> set us" using lt by auto
  qed
  with u show ?thesis by blast
qed

lemma allOccurrences_head:
  "allOccurrences tns q = (node, d, i) # rest \<Longrightarrow>
   \<exists>k < length tns. tns ! k = (node, d)
      \<and> (\<forall>j < k. occurrences (snd (tns ! j)) q = [])
      \<and> occursAt d q i \<and> (\<forall>i' < i. \<not> occursAt d q i')"
proof (induction tns)
  case Nil
  then show ?case by (simp add: allOccurrences_def)
next
  case (Cons nt tns)
  obtain nd tx where nt: "nt = (nd, tx)" by (cases nt)
  show ?case
  proof (cases "occurrences tx q")
    case Nil
    with Cons.prems nt have "allOccurrences tns q = (node, d, i) # rest"
      by (simp add: allOccurrences_Cons)
    from Cons.IH[OF this] obtain k where k: "k < length tns" "tns ! k = (node, d)"
      "\<forall>j < k. occurrences (snd (tns ! j)) q = []"
      "occursAt d q i" "\<forall>i' < i. \<not> occursAt d q i'" by blast
    have "\<forall>j < Suc k. occurrences (snd ((nt # tns) ! j)) q = []"
    proof (intro allI impI)
      fix j assume "j < Suc k"
      then show "occurrences (snd ((nt # tns) ! j)) q = []"
        using k(3) Nil nt by (cases j) auto
    qed
    with k have "Suc k < length (nt # tns) \<and> (nt # tns) ! Suc k = (node, d)
      \<and> (\<forall>j < Suc k. occurrences (snd ((nt # tns) ! j)) q = [])
      \<and> occursAt d q i \<and> (\<forall>i' < i. \<not> occursAt d q i')" by simp
    then show ?thesis by blast
  next
    case (Cons i0 more)
    with Cons.prems nt have eq: "nd = node" "tx = d" "i0 = i"
      by (auto simp: allOccurrences_Cons)
    from occurrences_head[OF Cons] eq nt show ?thesis
      by (intro exI[of _ 0]) simp
  qed
qed

text \<open>
  Claim C5.  Let the stored path decode to an existing node, let the offset check
  of tier 1 fail (the node is no text node, or its text at the offsets is not the
  quote), and let the non-empty quote occur in a text node below the ancestor that
  is searched: the parent of the decoded text node, or the decoded element itself.
  Then the resolver returns, as tier 2, the first occurrence of the quote in the
  text nodes below that ancestor in document order: the head of the list of
  occurrences, in the first text node of the walk that holds the quote, at the
  least position in that node.
\<close>

theorem resolveRange_tier2:
  assumes decoded: "getTextNodeByXPath ev doc (xpath item) = Some (p, n)"
    and failed: "\<forall>d. n = Text d \<longrightarrow> substring d (startOffset item) (endOffset item) \<noteq> quote item"
    and nonempty: "quote item \<noteq> []"
    and ancestor: "(if isText n then parentNode p else Some p) = Some el"
    and occurs: "allOccurrences (treeWalkerTexts doc el) (quote item) \<noteq> []"
  shows "\<exists>node d i rest k.
           allOccurrences (treeWalkerTexts doc el) (quote item) = (node, d, i) # rest
         \<and> k < length (treeWalkerTexts doc el) \<and> treeWalkerTexts doc el ! k = (node, d)
         \<and> (\<forall>j < k. occurrences (snd (treeWalkerTexts doc el ! j)) (quote item) = [])
         \<and> occursAt d (quote item) i \<and> (\<forall>i' < i. \<not> occursAt d (quote item) i')
         \<and> resolveRange ev doc item
             = Some (Tier2, \<lparr>matchNode = node, matchStart = i,
                              matchEnd = i + length (quote item)\<rparr>)"
proof -
  from occurs obtain node d i rest where
    occs: "allOccurrences (treeWalkerTexts doc el) (quote item) = (node, d, i) # rest"
    by (cases "allOccurrences (treeWalkerTexts doc el) (quote item)") auto
  have t2: "findQuoteInElement doc (Some el) (quote item)
      = Some \<lparr>matchNode = node, matchStart = i, matchEnd = i + length (quote item)\<rparr>"
    using nonempty occs by (simp add: findQuoteInElement_def findQuoteLoop_first matchOf_def)
  have "resolveRange ev doc item
      = Some (Tier2, \<lparr>matchNode = node, matchStart = i, matchEnd = i + length (quote item)\<rparr>)"
  proof (cases n)
    case (Text d)
    with failed have "substring d (startOffset item) (endOffset item) \<noteq> quote item"
      by simp
    moreover from Text ancestor have "parentNode p = Some el" by simp
    ultimately show ?thesis
      using decoded t2 Text by (simp add: resolveRange_def Let_def)
  next
    case (Element t a cs)
    with ancestor have "el = p" by simp
    then show ?thesis
      using decoded t2 Element by (simp add: resolveRange_def Let_def)
  qed
  with occs allOccurrences_head[OF occs] show ?thesis by blast
qed


text \<open>
  Instance: in \<open>shiftedDoc\<close> the quote occurs at 10 and at 31 below the paragraph;
  tier 2 returns the occurrence at 10.
\<close>

theorem resolveRange_tier2_witness:
  "getTextNodeByXPath exampleEval shiftedDoc (xpath (exampleAnchor ''hl-1'' ''''))
      = Some ([0, 0], Text ''Note: The quick brown fox. The quick brown fox jumps.'')
   \<and> substring ''Note: The quick brown fox. The quick brown fox jumps.''
        (startOffset (exampleAnchor ''hl-1'' '''')) (endOffset (exampleAnchor ''hl-1'' ''''))
      \<noteq> quote (exampleAnchor ''hl-1'' '''')
   \<and> quote (exampleAnchor ''hl-1'' '''') \<noteq> []
   \<and> parentNode [0, 0] = Some [0]
   \<and> allOccurrences (treeWalkerTexts shiftedDoc [0]) (quote (exampleAnchor ''hl-1'' ''''))
      = [([0, 0], ''Note: The quick brown fox. The quick brown fox jumps.'', 10),
         ([0, 0], ''Note: The quick brown fox. The quick brown fox jumps.'', 31)]
   \<and> resolveRange exampleEval shiftedDoc (exampleAnchor ''hl-1'' '''')
      = Some (Tier2, \<lparr>matchNode = [0, 0], matchStart = 10, matchEnd = 25\<rparr>)"
proof -
  let ?a = "exampleAnchor ''hl-1'' ''''"
  let ?t' = "''Note: The quick brown fox. The quick brown fox jumps.''"
  have d': "getTextNodeByXPath exampleEval shiftedDoc (xpath ?a) = Some ([0, 0], Text ?t')"
    by code_simp
  have s'': "substring ?t' (startOffset ?a) (endOffset ?a) \<noteq> quote ?a"
    by code_simp
  then have s': "\<forall>d. Text ?t' = Text d \<longrightarrow>
      substring d (startOffset ?a) (endOffset ?a) \<noteq> quote ?a"
    by simp
  have q: "quote ?a \<noteq> []"
    by (simp add: exampleAnchor_def)
  have an: "(if isText (Text ?t') then parentNode [0, 0] else Some [0, 0]) = Some [0]"
    by (simp add: parentNode_def)
  have occs: "allOccurrences (treeWalkerTexts shiftedDoc [0]) (quote ?a)
      = [([0, 0], ?t', 10), ([0, 0], ?t', 31)]"
    by code_simp
  then have ne: "allOccurrences (treeWalkerTexts shiftedDoc [0]) (quote ?a) \<noteq> []"
    by simp
  have ql: "length (quote ?a) = 15"
    by (simp add: exampleAnchor_def)
  have r: "resolveRange exampleEval shiftedDoc ?a
      = Some (Tier2, \<lparr>matchNode = [0, 0], matchStart = 10, matchEnd = 25\<rparr>)"
    using resolveRange_tier2[OF d' s' q an ne] occs ql by auto
  show ?thesis
    using d' s'' q occs r by (simp add: parentNode_def)
qed


subsection \<open>Tier 3 and the loops that return\<close>

text \<open>
  For a non-empty quote both loops of the document scan return: the partial
  function never takes the value that stands for not returning.
\<close>

lemma scanNodes_returns:
  "q \<noteq> [] \<Longrightarrow> \<exists>b'. scanNodes tns q pre suf b = Some b'"
  by (simp add: scanNodes_fold)

text \<open>
  When the stored path decodes to no node, the resolver's answer is that of the
  document scan.
\<close>

lemma resolveRange_tier3:
  "getTextNodeByXPath ev doc (xpath item) = None \<Longrightarrow>
   resolveRange ev doc item
     = map_option (Pair Tier3)
         (findQuoteWithContext doc (quote item) (prefix item) (suffix item))"
  by (simp add: resolveRange_def Let_def split: option.splits)

section \<open>The renderer: positions and in-place updates\<close>

lemma nodeAt_append:
  "nodeAt doc (p @ r) = (case nodeAt doc p of None \<Rightarrow> None | Some n \<Rightarrow> nodeAt n r)"
proof (induction doc p rule: nodeAt.induct)
  case (1 n)
  then show ?case by simp
next
  case (2 d i p)
  then show ?case by simp
next
  case (3 t a cs i p)
  then show ?case by simp
qed

lemma nodeAt_parent:
  assumes "nodeAt doc (pp @ [i]) = Some n"
  shows "\<exists>t a cs. nodeAt doc pp = Some (Element t a cs) \<and> i < length cs \<and> cs ! i = n"
proof (cases "nodeAt doc pp")
  case None
  with assms show ?thesis by (simp add: nodeAt_append)
next
  case (Some m)
  with assms have "nodeAt m [i] = Some n" by (simp add: nodeAt_append)
  then show ?thesis using Some by (cases m) (auto split: if_splits)
qed





lemma concat_map_update:
  "i < length cs \<Longrightarrow> g x = g (cs ! i) \<Longrightarrow> concat (map g (cs[i := x])) = concat (map g cs)"
proof (induction cs arbitrary: i)
  case Nil
  then show ?case by simp
next
  case (Cons c cs)
  then show ?case by (cases i) auto
qed

lemma textContent_updateAt:
  "nodeAt doc p = Some n \<Longrightarrow> textContent (f n) = textContent n \<Longrightarrow>
   textContent (updateAt doc p f) = textContent doc"
proof (induction doc p f rule: updateAt.induct)
  case (1 n f)
  then show ?case by simp
next
  case (2 d i p f)
  then show ?case by simp
next
  case (3 t a cs i p f)
  then show ?case by (auto split: if_splits simp: concat_map_update)
qed



subsection \<open>Normalisation\<close>

lemma textContent_normalize:
  "textContent (normalize n) = textContent n"
  "concat (map textContent (normalizeList cs)) = concat (map textContent cs)"
proof (induction n and cs rule: normalize_normalizeList.induct)
  case (1 d)
  then show ?case by simp
next
  case (2 t a cs)
  then show ?case by simp
next
  case 3
  then show ?case by simp
next
  case (4 c cs)
  then show ?case
    by (cases c) (auto split: list.splits node.splits)
qed





subsection \<open>Unwrapping a wrapped text\<close>

lemma moveChildrenOut_append: "moveChildrenOut placed ks = placed @ ks"
  by (induction ks arbitrary: placed) auto


subsection \<open>Finding the marker\<close>




lemma querySelectorList_drop:
  "querySelectorList h k cs = None \<Longrightarrow> querySelectorList h k' (drop i cs) = None"
proof (induction cs arbitrary: k k' i)
  case Nil
  then show ?case by simp
next
  case (Cons c cs)
  then have c: "querySelector h c = None" and r: "querySelectorList h (Suc k) cs = None"
    by (auto split: option.splits)
  show ?case
  proof (cases i)
    case 0
    have "querySelectorList h (Suc k') (drop 0 cs) = None"
      by (rule Cons.IH[OF r])
    with c 0 show ?thesis by simp
  next
    case (Suc j)
    with Cons.IH[OF r, of k' j] show ?thesis by simp
  qed
qed


lemma butlast_last_path: "p \<noteq> [] \<Longrightarrow> p = butlast p @ [last p]"
  by simp


subsection \<open>The selector of a marker id\<close>



lemma cssPlain_append: "cssPlain (xs @ ys) = (cssPlain xs \<and> cssPlain ys)"
  by (simp add: cssPlain_def)

lemma cssPlain_alnum: "list_all (\<lambda>c. isDigit c \<or> isLower c) s \<Longrightarrow> cssPlain s"
  by (induction s) (auto simp: cssPlain_def isDigit_def isLower_def isCssNewline_def)

lemma generateId_plain:
  assumes "list_all isDigit now" "list_all (\<lambda>c. isDigit c \<or> isLower c) random"
  shows "cssPlain (generateId now random)"
proof -
  from assms(1) have "list_all (\<lambda>c. isDigit c \<or> isLower c) now"
    by (simp add: list_all_iff)
  from cssPlain_alnum[OF this] cssPlain_alnum[OF assms(2)]
  have "cssPlain now" "cssPlain random" .
  moreover have "cssPlain ''hl-''" "cssPlain ''-''"
    by (simp_all add: cssPlain_def isCssNewline_def)
  ultimately show ?thesis
    unfolding generateId_def by (simp only: cssPlain_append)
qed






subsection \<open>Wrapping and unwrapping never change the text\<close>

text \<open>
  \<open>applyHighlightToTextNode\<close> never changes the text content of the document,
  whether it succeeds or not; nor does \<open>removeHighlightSpan\<close>, whether the selector
  is invalid, finds no element or finds one, for every id whose selector is written
  out in \<open>cssStringValue\<close>.
\<close>

lemma querySelector_element:
  "querySelector h n = Some p \<Longrightarrow>
     \<exists>t a cs. nodeAt n p = Some (Element t a cs) \<and> map_of a HIGHLIGHT_DATA_ATTR = Some h"
  "querySelectorList h k cs = Some p \<Longrightarrow>
     \<exists>j r t a ks. p = (k + j) # r \<and> j < length cs
        \<and> nodeAt (cs ! j) r = Some (Element t a ks) \<and> map_of a HIGHLIGHT_DATA_ATTR = Some h"
proof (induction h n and h k cs arbitrary: p and p rule: querySelector_querySelectorList.induct)
  case (1 hid d)
  then show ?case by simp
next
  case (2 hid t a cs)
  show ?case
  proof (cases "map_of a HIGHLIGHT_DATA_ATTR = Some hid")
    case True
    with "2.prems" show ?thesis by simp
  next
    case False
    with "2.prems" have "querySelectorList hid 0 cs = Some p" by simp
    from "2.IH"[OF False this] show ?thesis by auto
  qed
next
  case (3 hid i)
  then show ?case by simp
next
  case (4 hid i c cs)
  show ?case
  proof (cases "querySelector hid c")
    case None
    with "4.prems" have "querySelectorList hid (Suc i) cs = Some p" by simp
    from "4.IH"(2)[OF None this] obtain j r t a ks where
      "p = (Suc i + j) # r" "j < length cs" "nodeAt (cs ! j) r = Some (Element t a ks)"
      "map_of a HIGHLIGHT_DATA_ATTR = Some hid" by blast
    then have "p = (i + Suc j) # r \<and> Suc j < length (c # cs)
        \<and> nodeAt ((c # cs) ! Suc j) r = Some (Element t a ks)
        \<and> map_of a HIGHLIGHT_DATA_ATTR = Some hid" by simp
    then show ?thesis by blast
  next
    case (Some r)
    with "4.prems" have p: "p = i # r" by simp
    from "4.IH"(1)[OF Some] obtain t a ks where
      "nodeAt c r = Some (Element t a ks)" "map_of a HIGHLIGHT_DATA_ATTR = Some hid" by blast
    with p have "p = (i + 0) # r \<and> 0 < length (c # cs)
        \<and> nodeAt ((c # cs) ! 0) r = Some (Element t a ks)
        \<and> map_of a HIGHLIGHT_DATA_ATTR = Some hid" by simp
    then show ?thesis by blast
  qed
qed

lemma textContent_unwrapChild:
  assumes "i < length cs" "cs ! i = Element t' a' ks"
  shows "textContent (unwrapChild i (Element t a cs)) = textContent (Element t a cs)"
proof -
  have cs: "cs = take i cs @ Element t' a' ks # drop (Suc i) cs"
    using assms by (metis id_take_nth_drop)
  have "textContent (Element t a cs)
      = concat (map textContent (take i cs @ Element t' a' ks # drop (Suc i) cs))"
    using cs by simp
  then show ?thesis
    using assms by (simp add: unwrapChild_def moveChildrenOut_append)
qed

lemma textContent_unwrap_found:
  assumes "querySelector v doc = Some span" "span \<noteq> []"
  shows "textContent (updateAt doc (butlast span) (\<lambda>n. normalize (unwrapChild (last span) n)))
           = textContent doc"
proof -
  from querySelector_element(1)[OF assms(1)] obtain t' a' ks where
    sp: "nodeAt doc span = Some (Element t' a' ks)" by blast
  from assms(2) sp have "nodeAt doc (butlast span @ [last span]) = Some (Element t' a' ks)"
    by simp
  from nodeAt_parent[OF this] obtain t a cs where
    par: "nodeAt doc (butlast span) = Some (Element t a cs)" and i: "last span < length cs"
    and ci: "cs ! last span = Element t' a' ks" by blast
  let ?f = "\<lambda>n. normalize (unwrapChild (last span) n)"
  have "textContent (?f (Element t a cs)) = textContent (Element t a cs)"
    using textContent_unwrapChild[OF i ci] textContent_normalize(1) by simp
  from textContent_updateAt[of doc "butlast span" "Element t a cs" ?f, OF par this]
  show ?thesis .
qed

lemma textContent_removeHighlightSpan:
  assumes "cssStringValue hid \<noteq> CssOther"
  shows "textContent (fst (removeHighlightSpan platformQuery doc hid)) = textContent doc"
proof (cases "cssStringValue hid")
  case CssOther
  with assms show ?thesis by simp
next
  case CssInvalid
  then show ?thesis by (simp add: removeHighlightSpan_def querySelectorMarker_def)
next
  case (CssValue v)
  show ?thesis
  proof (cases "querySelector v doc")
    case None
    with CssValue show ?thesis by (simp add: removeHighlightSpan_def querySelectorMarker_def)
  next
    case (Some span)
    show ?thesis
    proof (cases "span = []")
      case True
      with Some CssValue show ?thesis
        by (simp add: removeHighlightSpan_def querySelectorMarker_def parentNode_def)
    next
      case False
      from textContent_unwrap_found[OF Some False] show ?thesis
        using Some False CssValue
        by (simp add: removeHighlightSpan_def querySelectorMarker_def parentNode_def)
    qed
  qed
qed

lemma textContent_wrapTextChild:
  assumes "s \<le> e" "e \<le> length d" "i < length cs" "cs ! i = Text d"
  shows "textContent (wrapTextChild i s e (createHighlightSpan hid col) (Element t a cs))
       = textContent (Element t a cs)"
proof -
  have cs: "cs = take i cs @ Text d # drop (Suc i) cs"
    using assms(3,4) by (metis id_take_nth_drop)
  have d3: "take s d @ take (e - s) (drop s d) @ drop e d = d"
    using assms(1,2) by (metis append.assoc append_take_drop_id le_add_diff_inverse take_add)
  have "textContent (wrapTextChild i s e (createHighlightSpan hid col) (Element t a cs))
      = concat (map textContent (take i cs)) @ (take s d @ take (e - s) (drop s d) @ drop e d)
        @ concat (map textContent (drop (Suc i) cs))"
    using assms by (auto simp: wrapTextChild_def createHighlightSpan_def)
  also have "\<dots> = concat (map textContent (take i cs @ Text d # drop (Suc i) cs))"
    unfolding d3 by simp
  finally show ?thesis using cs by simp
qed

lemma textContent_applyHighlightToTextNode:
  "textContent (fst (applyHighlightToTextNode doc p s e item)) = textContent doc"
proof (cases "snd (applyHighlightToTextNode doc p s e item)")
  case False
  then show ?thesis
    by (auto simp: applyHighlightToTextNode_def split: option.splits node.splits if_splits)
next
  case True
  then obtain d where node: "nodeAt doc p = Some (Text d)" and ne: "p \<noteq> []"
    and s: "s \<le> length d" and e: "e \<le> length d"
    by (auto simp: applyHighlightToTextNode_def split: option.splits node.splits if_splits)
  from ne node have "nodeAt doc (butlast p @ [last p]) = Some (Text d)" by simp
  from nodeAt_parent[OF this] obtain t a cs where
    par: "nodeAt doc (butlast p) = Some (Element t a cs)" and i: "last p < length cs"
    and ci: "cs ! last p = Text d" by blast
  let ?wrap = "wrapTextChild (last p) (min s e) e
      (createHighlightSpan (anchorId item) (color item))"
  have "min s e \<le> e" by simp
  from textContent_wrapTextChild[OF this e i ci]
  have "textContent (?wrap (Element t a cs)) = textContent (Element t a cs)" .
  from textContent_updateAt[of doc "butlast p" "Element t a cs" ?wrap, OF par this]
  show ?thesis
    using node ne s e by (simp add: applyHighlightToTextNode_def)
qed

section \<open>The restore pass: counting markers\<close>














text \<open>
  Outside the plain ids the skip test can miss a live marker.  In the selector
  made from the id that consists of \<open>hl\<close>, a backslash and \<open>x\<close>, the backslash and
  \<open>x\<close> are an escape that stands for \<open>x\<close>, so the query looks for the marker id
  \<open>hlx\<close>; the marker written by the first pass carries the id itself and is not
  found, and the second pass adds a second marker with that id.
\<close>

lemma restore_escaped_id:
  "cssStringValue (''hl'' @ [CHR 0x5C] @ ''x'') = CssValue ''hlx''
   \<and> countMarkers (''hl'' @ [CHR 0x5C] @ ''x'')
        (fst (((\<lambda>st. fst (restoreHighlights (\<lambda>selector doc. Inl SyntaxError) exampleEval st
                            [exampleAnchor (''hl'' @ [CHR 0x5C] @ ''x'') []])) ^^ 2)
               (exampleDoc, Map.empty)))
     = 2"
  by code_simp


section \<open>Resolved positions are text nodes\<close>

text \<open>
  Every position the resolver returns is that of a text node of the document, so
  \<open>applyHighlightToTextNode\<close> is only called on text nodes.
\<close>

lemma textNodes_valid:
  "(p, d) \<in> set (textNodes n) \<Longrightarrow> nodeAt n p = Some (Text d)"
  "(p, d) \<in> set (textNodesList k cs) \<Longrightarrow>
     \<exists>j r. p = (k + j) # r \<and> j < length cs \<and> nodeAt (cs ! j) r = Some (Text d)"
proof (induction n and k cs arbitrary: p and p rule: textNodes_textNodesList.induct)
  case (1 d')
  then show ?case by simp
next
  case (2 t a cs)
  from "2.prems" have "(p, d) \<in> set (textNodesList 0 cs)" by simp
  from "2.IH"[OF this] show ?case by auto
next
  case (3 i)
  then show ?case by simp
next
  case (4 i c cs)
  from "4.prems" consider
    (hd) r where "p = i # r" "(r, d) \<in> set (textNodes c)"
    | (tl) "(p, d) \<in> set (textNodesList (Suc i) cs)"
    by auto
  then show ?case
  proof cases
    case hd
    from "4.IH"(1)[OF hd(2)] hd(1) have "p = (i + 0) # r \<and> 0 < length (c # cs)
        \<and> nodeAt ((c # cs) ! 0) r = Some (Text d)" by simp
    then show ?thesis by blast
  next
    case tl
    from "4.IH"(2)[OF tl] obtain j r where
      "p = (Suc i + j) # r" "j < length cs" "nodeAt (cs ! j) r = Some (Text d)" by blast
    then have "p = (i + Suc j) # r \<and> Suc j < length (c # cs)
        \<and> nodeAt ((c # cs) ! Suc j) r = Some (Text d)" by simp
    then show ?thesis by blast
  qed
qed

lemma treeWalkerTexts_valid:
  assumes "(p, d) \<in> set (treeWalkerTexts doc el)"
  shows "nodeAt doc p = Some (Text d)"
proof -
  from assms obtain t a cs where el: "nodeAt doc el = Some (Element t a cs)"
    by (cases "nodeAt doc el"; cases "the (nodeAt doc el)")
       (auto simp: treeWalkerTexts_def)
  with assms obtain r where p: "p = el @ r" and r: "(r, d) \<in> set (textNodesList 0 cs)"
    by (auto simp: treeWalkerTexts_def)
  from textNodes_valid(2)[OF r] obtain j r' where
    "r = j # r'" "j < length cs" "nodeAt (cs ! j) r' = Some (Text d)" by auto
  with el p show ?thesis by (simp add: nodeAt_append)
qed

lemma findQuoteLoop_node:
  "findQuoteLoop tns q = Some m \<Longrightarrow> \<exists>d. (matchNode m, d) \<in> set tns"
proof (induction tns)
  case Nil
  then show ?case by simp
next
  case (Cons nt tns)
  obtain nd tx where nt: "nt = (nd, tx)" by (cases nt)
  from Cons show ?case
    by (cases "indexOf tx q 0") (auto simp: nt)
qed

lemma foldl_considerOcc_node:
  "foldl (considerOcc q pre suf) b occs = (Some m, sc) \<Longrightarrow>
   fst b = Some m \<or> (\<exists>occ \<in> set occs. m = matchOf q occ)"
proof (induction occs arbitrary: b)
  case Nil
  then show ?case by simp
next
  case (Cons occ occs)
  from Cons.IH[OF Cons.prems[simplified]] show ?case
    by (auto simp: considerOcc_def split: if_splits)
qed

lemma findQuoteWithContext_node:
  assumes "findQuoteWithContext doc q pre suf = Some m"
  shows "\<exists>d. (matchNode m, d) \<in> set (treeWalkerTexts doc [])"
proof -
  from assms have q: "q \<noteq> []" by (auto simp: findQuoteWithContext_def)
  with assms obtain sc where
    "foldl (considerOcc q pre suf) (None, 0) (allOccurrences (treeWalkerTexts doc []) q)
       = (Some m, sc)"
    by (auto simp: findQuoteWithContext_def scanNodes_fold split: prod.splits)
  from foldl_considerOcc_node[OF this] obtain occ where
    occ: "occ \<in> set (allOccurrences (treeWalkerTexts doc []) q)" "m = matchOf q occ"
    by auto
  obtain nd tx i where o: "occ = (nd, tx, i)" by (cases occ)
  with occ show ?thesis
    by (auto simp: allOccurrences_iff matchOf_def)
qed

lemma resolveRange_text_node:
  assumes "resolveRange ev doc item = Some (t, m)"
  shows "\<exists>d. nodeAt doc (matchNode m) = Some (Text d)"
proof -
  let ?dec = "getTextNodeByXPath ev doc (xpath item)"
  have dec: "\<And>p n. ?dec = Some (p, n) \<Longrightarrow> nodeAt doc p = Some n"
    by (auto simp: getTextNodeByXPath_def split: option.splits)
  from assms consider
    (t1) p d where "?dec = Some (p, Text d)" "matchNode m = p"
    | (t2) el where "findQuoteInElement doc (Some el) (quote item) = Some m"
    | (t3) "findQuoteWithContext doc (quote item) (prefix item) (suffix item) = Some m"
    unfolding resolveRange_def Let_def
    by (auto split: option.splits node.splits if_splits prod.splits
        simp: findQuoteInElement_def parentNode_def)
  then show ?thesis
  proof cases
    case t1
    with dec show ?thesis by auto
  next
    case t2
    then have "findQuoteLoop (treeWalkerTexts doc el) (quote item) = Some m"
      by (auto simp: findQuoteInElement_def split: if_splits)
    from findQuoteLoop_node[OF this] treeWalkerTexts_valid show ?thesis by blast
  next
    case t3
    from findQuoteWithContext_node[OF this] treeWalkerTexts_valid show ?thesis by blast
  qed
qed


section \<open>The codec: what an encoded selection stores\<close>

lemma doHighlight_Inr:
  assumes "doHighlight doc (Some sel) col newId now = (doc', Inr a)"
  shows "\<exists>info. getSelectionInfo doc (Some sel) = Some (Inr info)
           \<and> applyHighlight doc info col newId now = (doc', Some a)"
  using assms
  by (auto simp: doHighlight_def split: option.splits sum.splits prod.splits)

lemma getSelectionInfo_Inr:
  assumes "getSelectionInfo doc (Some sel) = Some (Inr info)"
  shows "quote info = trim (selString sel) \<and> selText info = trim (selString sel)
       \<and> trim (selString sel) \<noteq> []
       \<and> startOffset info = rangeStartOffset (selRange sel)
       \<and> endOffset info = rangeEndOffset (selRange sel)
       \<and> isTextAt doc (startContainer (selRange sel))
       \<and> getTextNodeXPath doc (startContainer (selRange sel)) = Some (xpath info)"
  using assms
  by (auto simp: getSelectionInfo_def Let_def split: if_splits option.splits)

lemma applyHighlight_Some:
  assumes "applyHighlight doc info col newId now = (doc', Some a)"
  shows "quote a = (if quote info \<noteq> [] then quote info else selText info)
       \<and> startOffset a = startOffset info \<and> endOffset a = endOffset info
       \<and> xpath a = xpath info \<and> anchorId a = newId"
  using assms
  by (auto simp: applyHighlight_def split: option.splits)

lemma applyUpdates_locator:
  "quote (applyUpdates x u) = quote x \<and> startOffset (applyUpdates x u) = startOffset x
   \<and> endOffset (applyUpdates x u) = endOffset x \<and> xpath (applyUpdates x u) = xpath x
   \<and> anchorId (applyUpdates x u) = anchorId x"
  by (simp add: applyUpdates_def)

lemma findIndex_Some: "findIndex P xs = Some i \<Longrightarrow> i < length xs"
  by (induction xs arbitrary: i) (auto split: if_splits)

text \<open>
  What a successful encode stores: the trimmed string of the selection as the
  quote, and the offsets of the range as they are.
\<close>

lemma doHighlight_stores:
  assumes "doHighlight doc (Some sel) col newId now = (doc', Inr a)"
  shows "quote a = trim (selString sel)
       \<and> startOffset a = rangeStartOffset (selRange sel)
       \<and> endOffset a = rangeEndOffset (selRange sel)"
proof -
  from doHighlight_Inr[OF assms] obtain info where
    gi: "getSelectionInfo doc (Some sel) = Some (Inr info)" and
    ah: "applyHighlight doc info col newId now = (doc', Some a)" by blast
  from getSelectionInfo_Inr[OF gi] applyHighlight_Some[OF ah]
  show ?thesis by auto
qed

text \<open>
  The operations of the store do not rewrite these fields: an update (colour,
  note, tags) leaves the quote and the offsets of every stored anchor as they are,
  a deletion only removes anchors, and adding a highlight only appends one.
\<close>

lemma getHighlightsForUrl_Record:
  assumes "getHighlightsForUrl platformURL hl url = PageRecord pd"
  shows "items pd = storedItems hl (normalizeUrl platformURL url)"
    and "\<not> (normalizeUrl platformURL url = ''__proto__'' \<and> hl (normalizeUrl platformURL url) = None)"
  using assms
  by (auto simp: getHighlightsForUrl_def getProperty_def storedItems_def objectPrototypeKeys_def
      split: option.splits if_splits)

lemma storedItems_saveHighlightsForUrl:
  assumes "\<not> (normalizeUrl platformURL url = ''__proto__'' \<and> hl (normalizeUrl platformURL url) = None)"
  shows "storedItems (saveHighlightsForUrl platformURL hl url ttl its) k
           = (if k = normalizeUrl platformURL url then its else storedItems hl k)"
  using assms by (auto simp: storedItems_def saveHighlightsForUrl_def Let_def)

lemma updateHighlight_locators:
  assumes "updateHighlight platformURL hl url hid u = Inr hl'"
  shows "map (\<lambda>x. (quote x, startOffset x, endOffset x)) (storedItems hl' k)
       = map (\<lambda>x. (quote x, startOffset x, endOffset x)) (storedItems hl k)"
proof -
  from assms obtain pd where pd: "getHighlightsForUrl platformURL hl url = PageRecord pd"
    by (auto simp: updateHighlight_def split: pageValue.splits)
  note rec = getHighlightsForUrl_Record[OF pd]
  show ?thesis
  proof (cases "findIndex (\<lambda>item. anchorId item = hid) (items pd)")
    case None
    with assms pd show ?thesis by (simp add: updateHighlight_def)
  next
    case (Some i)
    from findIndex_Some[OF Some] have i: "i < length (items pd)" .
    from assms pd Some have hl': "hl' = saveHighlightsForUrl platformURL hl url (title pd)
        ((items pd)[i := applyUpdates (items pd ! i) u])"
      by (simp add: updateHighlight_def)
    show ?thesis
      using i rec(1)
      by (simp add: hl' storedItems_saveHighlightsForUrl[where hl=hl and url=url and platformURL=platformURL, OF rec(2)] map_update
          applyUpdates_locator list_update_same_conv)
  qed
qed

lemma storedItems_removeHighlight:
  assumes "removeHighlight platformURL hl url hid = Inr hl'"
  shows "storedItems hl' k
     = (if k = normalizeUrl platformURL url
        then filter (\<lambda>item. anchorId item \<noteq> hid) (storedItems hl k)
        else storedItems hl k)"
proof -
  from assms obtain pd where pd: "getHighlightsForUrl platformURL hl url = PageRecord pd"
    by (auto simp: removeHighlight_def split: pageValue.splits)
  note rec = getHighlightsForUrl_Record[OF pd]
  from assms pd have "hl' = saveHighlightsForUrl platformURL hl url (title pd)
      (filter (\<lambda>item. anchorId item \<noteq> hid) (items pd))"
    by (simp add: removeHighlight_def)
  then show ?thesis
    using rec(1) by (simp add: storedItems_saveHighlightsForUrl[where hl=hl and url=url and platformURL=platformURL, OF rec(2)])
qed

lemma storedItems_addHighlight:
  assumes "addHighlight platformURL hl url ttl a = Inr hl'"
  shows "storedItems hl' k
     = (if k = normalizeUrl platformURL url then storedItems hl k @ [a] else storedItems hl k)"
proof -
  from assms obtain pd where pd: "getHighlightsForUrl platformURL hl url = PageRecord pd"
    by (auto simp: addHighlight_def split: pageValue.splits)
  note rec = getHighlightsForUrl_Record[OF pd]
  from assms pd have "hl' = saveHighlightsForUrl platformURL hl url
      (if ttl \<noteq> [] then ttl else title pd) (items pd @ [a])"
    by (simp add: addHighlight_def)
  then show ?thesis
    using rec(1) by (simp add: storedItems_saveHighlightsForUrl[where hl=hl and url=url and platformURL=platformURL, OF rec(2)])
qed

text \<open>
  Claim C2.  The selection from offset 24 to 40 of the text node of \<open>exampleDoc\<close>
  starts with a space; its string is the text between the offsets.  The encode
  trims the string before it stores it as the quote and stores the offsets as they
  are, so the text of the node between the stored offsets is not the stored quote.
  Restoring that anchor on the same, unchanged page, the first tier compares the
  text at the stored offsets with the quote, fails, and the second tier takes the
  first occurrence of the quote in the paragraph, at 4 to 19: not the passage that
  was selected, which is the second occurrence, at 25 to 40.
\<close>

theorem encode_quote_not_substring:
  "nodeAt exampleDoc [0, 0] = Some (Text ''The quick brown fox. The quick brown fox jumps.'')
   \<and> substring ''The quick brown fox. The quick brown fox jumps.'' 24 40 = '' quick brown fox''
   \<and> snd (doHighlight exampleDoc (Some (selectionOf [0, 0] 24 [0, 0] 40 '' quick brown fox''))
            ''#FFEB3B'' ''hl-9'' ''2026-01-01T00:00:00.000Z'')
     = Inr \<lparr>quote = ''quick brown fox'', xpath = XPath [(''p'', None)] 1,
            startOffset = 24, endOffset = 40, prefix = ''The quick brown fox. The'',
            suffix = '' jumps.'', anchorId = ''hl-9'', color = ''#FFEB3B'', noteText = [],
            createdAt = ''2026-01-01T00:00:00.000Z'', tags = []\<rparr>
   \<and> ''quick brown fox'' \<noteq> substring ''The quick brown fox. The quick brown fox jumps.'' 24 40
   \<and> resolveRange exampleEval exampleDoc
        \<lparr>quote = ''quick brown fox'', xpath = XPath [(''p'', None)] 1,
         startOffset = 24, endOffset = 40, prefix = ''The quick brown fox. The'',
         suffix = '' jumps.'', anchorId = ''hl-9'', color = ''#FFEB3B'', noteText = [],
         createdAt = ''2026-01-01T00:00:00.000Z'', tags = []\<rparr>
     = Some (Tier2, \<lparr>matchNode = [0, 0], matchStart = 4, matchEnd = 19\<rparr>)
   \<and> fst (tryRestoreHighlight exampleEval exampleDoc
        \<lparr>quote = ''quick brown fox'', xpath = XPath [(''p'', None)] 1,
         startOffset = 24, endOffset = 40, prefix = ''The quick brown fox. The'',
         suffix = '' jumps.'', anchorId = ''hl-9'', color = ''#FFEB3B'', noteText = [],
         createdAt = ''2026-01-01T00:00:00.000Z'', tags = []\<rparr>)
     = Element ''body'' []
         [Element ''p'' []
            [Text ''The '',
             Element ''span'' [(''class'', HIGHLIGHT_CLASS), (HIGHLIGHT_DATA_ATTR, ''hl-9'')]
               [Text ''quick brown fox''],
             Text ''. The quick brown fox jumps.'']]"
  by code_simp

text \<open>
  For comparison, the same passage selected without the space, offsets 25 to 40:
  the text at the stored offsets is the quote, and the anchor is restored by the
  first tier at 25 to 40.
\<close>

lemma encode_without_space:
  "snd (doHighlight exampleDoc (Some (selectionOf [0, 0] 25 [0, 0] 40 ''quick brown fox''))
            ''#FFEB3B'' ''hl-9'' ''2026-01-01T00:00:00.000Z'')
     = Inr \<lparr>quote = ''quick brown fox'', xpath = XPath [(''p'', None)] 1,
            startOffset = 25, endOffset = 40, prefix = ''The quick brown fox. The '',
            suffix = '' jumps.'', anchorId = ''hl-9'', color = ''#FFEB3B'', noteText = [],
            createdAt = ''2026-01-01T00:00:00.000Z'', tags = []\<rparr>
   \<and> ''quick brown fox'' = substring ''The quick brown fox. The quick brown fox jumps.'' 25 40
   \<and> resolveRange exampleEval exampleDoc
        \<lparr>quote = ''quick brown fox'', xpath = XPath [(''p'', None)] 1,
         startOffset = 25, endOffset = 40, prefix = ''The quick brown fox. The '',
         suffix = '' jumps.'', anchorId = ''hl-9'', color = ''#FFEB3B'', noteText = [],
         createdAt = ''2026-01-01T00:00:00.000Z'', tags = []\<rparr>
     = Some (Tier1, \<lparr>matchNode = [0, 0], matchStart = 25, matchEnd = 40\<rparr>)"
  by code_simp

text \<open>
  Claim C3, as amended.  A selection with a non-empty trimmed string is rejected
  with the multi-node error exactly when its start and end containers differ and
  one of them is not a text node or their parents differ; then no anchor is
  produced and the document is unchanged.  (Two distinct text nodes with the same
  parent are let through.)
\<close>

theorem getSelectionInfo_multi_node:
  "(getSelectionInfo doc (Some sel) = Some (Inl (MultiNode, txt)))
     = (txt = trim (selString sel) \<and> txt \<noteq> []
        \<and> startContainer (selRange sel) \<noteq> endContainer (selRange sel)
        \<and> (\<not> isTextAt doc (startContainer (selRange sel))
           \<or> \<not> isTextAt doc (endContainer (selRange sel))
           \<or> parentNode (startContainer (selRange sel)) \<noteq> parentNode (endContainer (selRange sel))))
   \<and> (getSelectionInfo doc (Some sel) = Some (Inl (MultiNode, txt))
        \<longrightarrow> doHighlight doc (Some sel) col newId now = (doc, Inl (SelectionError MultiNode)))"
  by (auto simp: getSelectionInfo_def doHighlight_def Let_def split: option.splits)

text \<open>
  Instance: a selection from the first paragraph of \<open>inlineDoc\<close> into the second
  one is rejected with the multi-node error.
\<close>

theorem getSelectionInfo_multi_node_witness:
  "isTextAt inlineDoc [0, 2] \<and> isTextAt inlineDoc [1, 0]
   \<and> parentNode [0, 2] \<noteq> parentNode [1, 0]
   \<and> getSelectionInfo inlineDoc (Some (selectionOf [0, 2] 1 [1, 0] 3 ''baz sec''))
       = Some (Inl (MultiNode, ''baz sec''))
   \<and> doHighlight inlineDoc (Some (selectionOf [0, 2] 1 [1, 0] 3 ''baz sec''))
        ''#FFEB3B'' ''hl-9'' ''2026-01-01T00:00:00.000Z''
       = (inlineDoc, Inl (SelectionError MultiNode))"
proof -
  let ?sel = "selectionOf [0, 2] 1 [1, 0] 3 ''baz sec''"
  have tx: "isTextAt inlineDoc [0, 2]" "isTextAt inlineDoc [1, 0]"
    by code_simp+
  have pa: "parentNode [0, 2] \<noteq> parentNode [1, 0]"
    by code_simp
  have tr: "''baz sec'' = trim (selString ?sel)" "''baz sec'' \<noteq> []"
    by code_simp+
  have rg: "startContainer (selRange ?sel) = [0, 2]" "endContainer (selRange ?sel) = [1, 0]"
    by (simp_all add: selectionOf_def)
  note inst = getSelectionInfo_multi_node
      [of inlineDoc ?sel "''baz sec''" "''#FFEB3B''" "''hl-9''" "''2026-01-01T00:00:00.000Z''"]
  from inst tr pa rg have rej:
    "getSelectionInfo inlineDoc (Some ?sel) = Some (Inl (MultiNode, ''baz sec''))"
    by simp
  with inst have none: "doHighlight inlineDoc (Some ?sel)
        ''#FFEB3B'' ''hl-9'' ''2026-01-01T00:00:00.000Z''
       = (inlineDoc, Inl (SelectionError MultiNode))"
    by blast
  show ?thesis
    using tx pa rej none by simp
qed

text \<open>
  Claim C3 as stated fails: in \<open>inlineDoc\<close> the text nodes \<open>foo \<close> and \<open> baz\<close> are two
  distinct text nodes of one paragraph, separated by inline markup.  A selection
  from the first into the second is not rejected: the marker is inserted and an
  anchor is produced, with the start offset taken from the first and the end
  offset from the second text node.
\<close>

theorem multi_node_selection_accepted:
  "isTextAt inlineDoc [0, 0] \<and> isTextAt inlineDoc [0, 2] \<and> [0, 0] \<noteq> [0, (2 :: nat)]
   \<and> doHighlight inlineDoc (Some (selectionOf [0, 0] 1 [0, 2] 3 ''oo bar ba''))
        ''#FFEB3B'' ''hl-9'' ''2026-01-01T00:00:00.000Z''
     = (Element ''body'' []
          [Element ''p'' []
             [Text ''f'',
              Element ''span'' [(''class'', HIGHLIGHT_CLASS), (HIGHLIGHT_DATA_ATTR, ''hl-9'')]
                [Text ''oo '', Element ''b'' [] [Text ''bar''], Text '' ba''],
              Text ''z''],
           Element ''p'' [] [Text ''second'']],
        Inr \<lparr>quote = ''oo bar ba'', xpath = XPath [(''p'', Some 1)] 1,
              startOffset = 1, endOffset = 3, prefix = ''f'', suffix = '' '',
              anchorId = ''hl-9'', color = ''#FFEB3B'', noteText = [],
              createdAt = ''2026-01-01T00:00:00.000Z'', tags = []\<rparr>)"
  by code_simp

end
